theory Spec2Isabelle
  imports
    Main
    "HOL-Library.Sublist"
    "HOL-Library.Multiset"
    "HOL-Library.Product_Lexorder"
    "HOL-Library.Char_ord"
    "HOL-Library.List_Lexorder"
begin

section \<open>Errors and promises\<close>

text \<open>
  The rejection values that occur in \<^verbatim>\<open>db.js\<close> and in the service worker. The open
  request rejects with the string \<^verbatim>\<open>'IndexedDB error: ' + message\<close> or, when blocked, with
  an \<^verbatim>\<open>Error\<close> object; requests and transactions reject with the \<^verbatim>\<open>DOMException\<close> of the
  platform (\<^verbatim>\<open>event.target.error\<close>); \<^verbatim>\<open>clearDatabase\<close> rejects with an error named
  \<^verbatim>\<open>BlockedError\<close>.
\<close>

datatype error =
    OpenFailed string
  | OpenBlocked
  | ConstraintError
  | DataError
  | DataCloneError
  | AbortError
  | StorageError string
  | DeleteBlocked
  | TypeError

text \<open>
  A JavaScript promise settles at most once: \<^verbatim>\<open>resolve\<close> and \<^verbatim>\<open>reject\<close> on a promise
  that is already settled do nothing.
\<close>

datatype 'a settled = Pending | Fulfilled 'a | Rejected error

definition resolve :: "'a \<Rightarrow> 'a settled \<Rightarrow> 'a settled" where
  "resolve v p = (case p of Pending \<Rightarrow> Fulfilled v | Fulfilled w \<Rightarrow> Fulfilled w | Rejected e \<Rightarrow> Rejected e)"

definition reject :: "error \<Rightarrow> 'a settled \<Rightarrow> 'a settled" where
  "reject e p = (case p of Pending \<Rightarrow> Rejected e | Fulfilled w \<Rightarrow> Fulfilled w | Rejected e' \<Rightarrow> Rejected e')"

section \<open>Connection manager: \<^verbatim>\<open>getDB\<close>\<close>

text \<open>
  \<^verbatim>\<open>let dbPromise = null\<close> is a module variable holding a reference to a promise object.
  Promise objects are modelled by reference: \<open>promises\<close> is the heap of the promise
  objects that \<^verbatim>\<open>getDB\<close> has created, \<open>dbPromise\<close> holds the address of one of them or
  \<open>None\<close> for \<^verbatim>\<open>null\<close>. The executor of each promise that \<^verbatim>\<open>getDB\<close> creates calls
  \<^verbatim>\<open>indexedDB.open\<close> once; \<open>opens\<close> counts these calls, and the next fresh address is
  \<open>opens\<close>. A connection handle (\<^verbatim>\<open>IDBDatabase\<close>) is identified by a number.
\<close>

type_synonym handle = nat

record conn =
  dbPromise :: "nat option"
  promises :: "nat \<Rightarrow> handle settled"
  opens :: nat

definition getDB :: "'a conn_scheme \<Rightarrow> nat \<times> 'a conn_scheme" where
  "getDB c =
     (case dbPromise c of
        Some p \<Rightarrow> (p, c)
      | None \<Rightarrow>
          (let p = opens c
           in (p, c\<lparr>dbPromise := Some p,
                    promises := (promises c)(p := Pending),
                    opens := opens c + 1\<rparr>)))"

text \<open>
  The events that the platform fires at the open request, and what the four handlers
  installed by \<^verbatim>\<open>getDB\<close> do to the promise. \<^verbatim>\<open>onupgradeneeded\<close> creates the missing object
  stores and does not touch the promise.
\<close>

datatype open_event =
    OpenSuccess handle
  | OpenError string
  | OpenBlockedEvent
  | UpgradeNeeded

definition open_handler :: "open_event \<Rightarrow> handle settled \<Rightarrow> handle settled" where
  "open_handler ev p =
     (case ev of
        OpenSuccess h \<Rightarrow> resolve h p
      | OpenError msg \<Rightarrow> reject (OpenFailed msg) p
      | OpenBlockedEvent \<Rightarrow> reject OpenBlocked p
      | UpgradeNeeded \<Rightarrow> p)"

definition deliver :: "nat \<Rightarrow> open_event \<Rightarrow> 'a conn_scheme \<Rightarrow> 'a conn_scheme" where
  "deliver p ev c = c\<lparr>promises := (promises c)(p := open_handler ev (promises c p))\<rparr>"




text \<open>
  \<^verbatim>\<open>await getDB()\<close>: the caller is suspended until the promise is settled. If the promise
  is still pending, the platform fires the event \<open>po\<close> at the open request (an input of
  the model). The result is the state of the promise then: \<open>Pending\<close> means that the
  caller stays suspended.
\<close>

definition await_getDB :: "open_event \<Rightarrow> 'a conn_scheme \<Rightarrow> handle settled \<times> 'a conn_scheme" where
  "await_getDB po c =
     (let (p, c1) = getDB c;
          c2 = (case promises c1 p of Pending \<Rightarrow> deliver p po c1 | Fulfilled h \<Rightarrow> c1 | Rejected e \<Rightarrow> c1)
      in (promises c2 p, c2))"

section \<open>The database: four object stores\<close>

text \<open>
  \<^verbatim>\<open>families\<close> has key path \<^verbatim>\<open>familyName\<close>, \<^verbatim>\<open>cars\<close> has key path \<^verbatim>\<open>id\<close>; both have in-line
  keys and no key generator. \<^verbatim>\<open>savedStates\<close> and \<^verbatim>\<open>savedParking\<close> have key path \<^verbatim>\<open>id\<close> with
  \<^verbatim>\<open>autoIncrement\<close> and an index on \<^verbatim>\<open>timestamp\<close>. The payload of a record (\<^verbatim>\<open>state\<close>,
  \<^verbatim>\<open>parking\<close>, the fields of a family or a car) is opaque. An object store keeps its records
  in ascending order of their primary key, the order in which \<^verbatim>\<open>getAll\<close> returns them.
\<close>

record 'v family =
  familyName :: string
  family_data :: 'v

record 'v car =
  car_id :: string
  car_data :: 'v

record 'p snapshot =
  rec_id :: nat
  name :: string
  payload :: 'p
  timestamp :: int

record 'p snapstore =
  rows :: "'p snapshot list"
  keygen :: nat

record ('v, 'p) world = conn +
  families :: "'v family list"
  cars :: "'v car list"
  savedStates :: "'p snapstore"
  savedParking :: "'p snapstore"

text \<open>
  A store name selects one object store of the database: it is modelled by the pair of
  the function that reads this store and the function that replaces it.
\<close>

type_synonym ('w, 's) store_name = "('w \<Rightarrow> 's) \<times> ('s \<Rightarrow> 'w \<Rightarrow> 'w)"

definition STORE_FAMILIES :: "(('v, 'p) world, 'v family list) store_name" where
  "STORE_FAMILIES = (families, \<lambda>s w. w\<lparr>families := s\<rparr>)"

definition STORE_CARS :: "(('v, 'p) world, 'v car list) store_name" where
  "STORE_CARS = (cars, \<lambda>s w. w\<lparr>cars := s\<rparr>)"

definition STORE_SAVED_STATES :: "(('v, 'p) world, 'p snapstore) store_name" where
  "STORE_SAVED_STATES = (savedStates, \<lambda>s w. w\<lparr>savedStates := s\<rparr>)"

definition STORE_SAVED_PARKING :: "(('v, 'p) world, 'p snapstore) store_name" where
  "STORE_SAVED_PARKING = (savedParking, \<lambda>s w. w\<lparr>savedParking := s\<rparr>)"

subsection \<open>Requests on a store with in-line keys\<close>

text \<open>
  A request either succeeds with a result and the new contents of the store, or fails
  with an error. \<open>kp\<close> reads the key of a record at the key path of the store.
  \<^verbatim>\<open>add\<close> fails with \<^verbatim>\<open>ConstraintError\<close> when a record with the same key exists; \<^verbatim>\<open>put\<close>
  replaces it.
\<close>

definition store_getAll :: "'r list \<Rightarrow> (error + 'r list) \<times> 'r list" where
  "store_getAll rs = (Inr rs, rs)"

definition store_get :: "('r \<Rightarrow> 'k) \<Rightarrow> 'k \<Rightarrow> 'r list \<Rightarrow> (error + 'r option) \<times> 'r list" where
  "store_get kp k rs = (Inr (find (\<lambda>r. kp r = k) rs), rs)"

definition store_add :: "('r \<Rightarrow> 'k::linorder) \<Rightarrow> 'r \<Rightarrow> 'r list \<Rightarrow> (error + 'k) \<times> 'r list" where
  "store_add kp item rs =
     (if kp item \<in> kp ` set rs then (Inl ConstraintError, rs)
      else (Inr (kp item), insort_key kp item rs))"

definition store_put :: "('r \<Rightarrow> 'k::linorder) \<Rightarrow> 'r \<Rightarrow> 'r list \<Rightarrow> (error + 'k) \<times> 'r list" where
  "store_put kp item rs =
     (Inr (kp item), insort_key kp item (filter (\<lambda>r. kp r \<noteq> kp item) rs))"

definition store_delete :: "('r \<Rightarrow> 'k) \<Rightarrow> 'k \<Rightarrow> 'r list \<Rightarrow> (error + unit) \<times> 'r list" where
  "store_delete kp k rs = (Inr (), filter (\<lambda>r. kp r \<noteq> k) rs)"

definition store_clear :: "'r list \<Rightarrow> (error + unit) \<times> 'r list" where
  "store_clear rs = (Inr (), [])"

section \<open>Transaction helper and CRUD\<close>

text \<open>
  \<^verbatim>\<open>performTransaction\<close> awaits the connection, opens one transaction on one store and
  issues one request. \<^verbatim>\<open>request.onsuccess\<close> resolves with the result; the transaction then
  commits what the request wrote. \<^verbatim>\<open>request.onerror\<close> rejects with the error; neither it
  nor \<^verbatim>\<open>transaction.onerror\<close> calls \<^verbatim>\<open>preventDefault\<close>, so the platform aborts the
  transaction and the store keeps its contents. A read-only transaction writes nothing.
\<close>

datatype mode = ReadOnly | ReadWrite

definition performTransaction ::
  "('a conn_scheme, 's) store_name \<Rightarrow> mode \<Rightarrow> ('s \<Rightarrow> (error + 'r) \<times> 's) \<Rightarrow>
     open_event \<Rightarrow> 'a conn_scheme \<Rightarrow> 'r settled \<times> 'a conn_scheme" where
  "performTransaction storeName md action po w =
     (case await_getDB po w of
        (Pending, w1) \<Rightarrow> (Pending, w1)
      | (Rejected e, w1) \<Rightarrow> (Rejected e, w1)
      | (Fulfilled db, w1) \<Rightarrow>
          (case action (fst storeName w1) of
             (Inl e, s') \<Rightarrow> (reject e Pending, w1)
           | (Inr r, s') \<Rightarrow>
               (resolve r Pending, if md = ReadWrite then snd storeName s' w1 else w1)))"

definition getAll ::
  "('a conn_scheme, 'r list) store_name \<Rightarrow> open_event \<Rightarrow> 'a conn_scheme \<Rightarrow>
     'r list settled \<times> 'a conn_scheme" where
  "getAll storeName = performTransaction storeName ReadOnly store_getAll"

definition get ::
  "('a conn_scheme, 'r list) store_name \<Rightarrow> ('r \<Rightarrow> 'k) \<Rightarrow> 'k \<Rightarrow> open_event \<Rightarrow>
     'a conn_scheme \<Rightarrow> 'r option settled \<times> 'a conn_scheme" where
  "get storeName kp k = performTransaction storeName ReadOnly (store_get kp k)"

definition add ::
  "('a conn_scheme, 'r list) store_name \<Rightarrow> ('r \<Rightarrow> 'k::linorder) \<Rightarrow> 'r \<Rightarrow> open_event \<Rightarrow>
     'a conn_scheme \<Rightarrow> 'k settled \<times> 'a conn_scheme" where
  "add storeName kp item = performTransaction storeName ReadWrite (store_add kp item)"

definition update ::
  "('a conn_scheme, 'r list) store_name \<Rightarrow> ('r \<Rightarrow> 'k::linorder) \<Rightarrow> 'r \<Rightarrow> open_event \<Rightarrow>
     'a conn_scheme \<Rightarrow> 'k settled \<times> 'a conn_scheme" where
  "update storeName kp item = performTransaction storeName ReadWrite (store_put kp item)"

definition remove ::
  "('a conn_scheme, 'r list) store_name \<Rightarrow> ('r \<Rightarrow> 'k) \<Rightarrow> 'k \<Rightarrow> open_event \<Rightarrow>
     'a conn_scheme \<Rightarrow> unit settled \<times> 'a conn_scheme" where
  "remove storeName kp k = performTransaction storeName ReadWrite (store_delete kp k)"

definition clearStore ::
  "('a conn_scheme, 'r list) store_name \<Rightarrow> open_event \<Rightarrow> 'a conn_scheme \<Rightarrow>
     unit settled \<times> 'a conn_scheme" where
  "clearStore storeName = performTransaction storeName ReadWrite store_clear"

subsection \<open>\<^verbatim>\<open>bulkAdd\<close>\<close>

text \<open>
  \<^verbatim>\<open>bulkAdd\<close> opens one read-write transaction and calls \<^verbatim>\<open>store.add\<close> once per item, each
  call in the executor of a promise of its own. \<^verbatim>\<open>store.add\<close> first checks its argument
  synchronously: it throws a \<^verbatim>\<open>DataCloneError\<close> for a value that cannot be cloned and a
  \<^verbatim>\<open>DataError\<close> for a value without a valid key at the key path. \<open>throws\<close> gives the
  exception of these checks for an item (\<open>None\<close> when the item passes them), an input
  of the model. An exception in the executor rejects the promise of that item: no
  request is queued for the item, the transaction is not aborted, and \<^verbatim>\<open>items.map\<close> goes
  on with the next item.
\<close>

definition map_promises :: "('r \<Rightarrow> error option) \<Rightarrow> 'r list \<Rightarrow> unit settled list" where
  "map_promises throws items =
     map (\<lambda>x. case throws x of Some e \<Rightarrow> reject e Pending | None \<Rightarrow> Pending) items"

text \<open>
  \<open>bulk_tx\<close> is the state of the transaction while the platform serves the queued
  requests in order: the working copy of the store, the promises of \<^verbatim>\<open>items.map\<close> as far
  as they are settled, the promise that \<^verbatim>\<open>bulkAdd\<close> returns, and whether the transaction
  has been aborted. An error handler returns, besides the promise it settles, whether
  it called \<^verbatim>\<open>preventDefault\<close>: the platform aborts the transaction after an error event
  that no handler has prevented, and the handlers of \<^verbatim>\<open>bulkAdd\<close> never do.
\<close>

record 'r bulk_tx =
  working :: "'r list"
  inner :: "unit settled list"
  outer :: "unit settled"
  aborted :: bool

definition bulk_request_onsuccess :: "unit settled \<Rightarrow> unit settled" where
  "bulk_request_onsuccess p = resolve () p"

definition bulk_request_onerror :: "error \<Rightarrow> unit settled \<Rightarrow> unit settled \<times> bool" where
  "bulk_request_onerror e p = (reject e p, False)"

definition bulk_transaction_onerror :: "error \<Rightarrow> unit settled \<Rightarrow> unit settled \<times> bool" where
  "bulk_transaction_onerror e p = (reject e p, False)"

definition bulk_transaction_oncomplete :: "unit settled \<Rightarrow> unit settled" where
  "bulk_transaction_oncomplete p = resolve () p"

text \<open>
  The platform serves the queued requests. An item whose \<^verbatim>\<open>store.add\<close> threw has no
  request; its promise is already rejected. A request of an aborted transaction fails
  with \<^verbatim>\<open>AbortError\<close>. An error event is dispatched at the request and bubbles to the
  transaction.
\<close>

fun bulk_requests ::
  "('r \<Rightarrow> 'k::linorder) \<Rightarrow> ('r \<Rightarrow> error option) \<Rightarrow> 'r list \<Rightarrow> 'r bulk_tx \<Rightarrow> 'r bulk_tx" where
  "bulk_requests kp throws [] t = t"
| "bulk_requests kp throws (x # xs) t =
     (case throws x of
        Some e \<Rightarrow> bulk_requests kp throws xs (t\<lparr>inner := inner t @ [reject e Pending]\<rparr>)
      | None \<Rightarrow>
          (if aborted t then
             (let (ip, pd1) = bulk_request_onerror AbortError Pending;
                  (op, pd2) = bulk_transaction_onerror AbortError (outer t)
              in bulk_requests kp throws xs (t\<lparr>inner := inner t @ [ip], outer := op\<rparr>))
           else
             (case store_add kp x (working t) of
                (Inr k, rs) \<Rightarrow>
                  bulk_requests kp throws xs
                    (t\<lparr>working := rs, inner := inner t @ [bulk_request_onsuccess Pending]\<rparr>)
              | (Inl e, rs) \<Rightarrow>
                  (let (ip, pd1) = bulk_request_onerror e Pending;
                       (op, pd2) = bulk_transaction_onerror e (outer t)
                   in bulk_requests kp throws xs
                        (t\<lparr>inner := inner t @ [ip], outer := op,
                           aborted := \<not> (pd1 \<or> pd2)\<rparr>)))))"

text \<open>
  \<^verbatim>\<open>Promise.all\<close>: rejected with the first rejection, fulfilled when every promise is
  fulfilled. \<open>settle_all\<close> is \<^verbatim>\<open>Promise.all(promises).then(() => resolve()).catch(err => reject(err))\<close>
  at a given state of the promises.
\<close>

fun promise_all :: "unit settled list \<Rightarrow> unit settled" where
  "promise_all [] = Fulfilled ()"
| "promise_all (Rejected e # ps) = Rejected e"
| "promise_all (Pending # ps) = (case promise_all ps of Rejected e \<Rightarrow> Rejected e | Fulfilled u \<Rightarrow> Pending | Pending \<Rightarrow> Pending)"
| "promise_all (Fulfilled u # ps) = promise_all ps"

definition settle_all :: "unit settled list \<Rightarrow> unit settled \<Rightarrow> unit settled" where
  "settle_all ps p =
     (case promise_all ps of
        Fulfilled u \<Rightarrow> resolve () p
      | Rejected e \<Rightarrow> reject e p
      | Pending \<Rightarrow> p)"

text \<open>
  The promises of \<^verbatim>\<open>items.map\<close> that an exception has rejected settle the returned
  promise before the first event of the transaction. The transaction commits the
  working copy unless it has been aborted.
\<close>

definition bulkAdd ::
  "('a conn_scheme, 'r list) store_name \<Rightarrow> ('r \<Rightarrow> 'k::linorder) \<Rightarrow> ('r \<Rightarrow> error option) \<Rightarrow>
     'r list \<Rightarrow> open_event \<Rightarrow> 'a conn_scheme \<Rightarrow> unit settled \<times> 'a conn_scheme" where
  "bulkAdd storeName kp throws items po w =
     (case await_getDB po w of
        (Pending, w1) \<Rightarrow> (Pending, w1)
      | (Rejected e, w1) \<Rightarrow> (Rejected e, w1)
      | (Fulfilled db, w1) \<Rightarrow>
          (let p0 = settle_all (map_promises throws items) Pending;
               t = bulk_requests kp throws items
                     \<lparr>working = fst storeName w1, inner = [], outer = p0, aborted = False\<rparr>;
               p1 = settle_all (inner t) (outer t)
           in if aborted t then (p1, w1)
              else (bulk_transaction_oncomplete p1, snd storeName (working t) w1)))"

text \<open>
  Whether one of the add requests of a list fails, when the platform serves them in
  order on the working copy of the store.
\<close>

fun some_add_fails :: "('r \<Rightarrow> 'k::linorder) \<Rightarrow> 'r list \<Rightarrow> 'r list \<Rightarrow> bool" where
  "some_add_fails kp [] rs = False"
| "some_add_fails kp (x # xs) rs =
     (case store_add kp x rs of
        (Inl e, rs') \<Rightarrow> True
      | (Inr k, rs') \<Rightarrow> some_add_fails kp xs rs')"

definition bulkAddFamilies ::
  "('v family \<Rightarrow> error option) \<Rightarrow> 'v family list \<Rightarrow> open_event \<Rightarrow> ('v, 'p) world \<Rightarrow>
     unit settled \<times> ('v, 'p) world" where
  "bulkAddFamilies throws fs = bulkAdd STORE_FAMILIES familyName throws fs"

definition bulkAddCars ::
  "('v car \<Rightarrow> error option) \<Rightarrow> 'v car list \<Rightarrow> open_event \<Rightarrow> ('v, 'p) world \<Rightarrow>
     unit settled \<times> ('v, 'p) world" where
  "bulkAddCars throws cs = bulkAdd STORE_CARS car_id throws cs"

section \<open>Saved states and saved parking\<close>

subsection \<open>Requests on a store with a key generator and a timestamp index\<close>

text \<open>
  \<^verbatim>\<open>saveState\<close> and \<^verbatim>\<open>saveParking\<close> add a record that has no \<^verbatim>\<open>id\<close>: the key generator
  of the store supplies the key and advances. \<open>fault\<close> is a failure of the platform for
  this request (quota, I/O, an exhausted key generator), an input of the model.
\<close>

definition snap_add ::
  "error option \<Rightarrow> string \<Rightarrow> 'p \<Rightarrow> int \<Rightarrow> 'p snapstore \<Rightarrow> (error + nat) \<times> 'p snapstore" where
  "snap_add fault nm pl ts s =
     (case fault of
        Some e \<Rightarrow> (Inl e, s)
      | None \<Rightarrow>
          (Inr (keygen s),
           s\<lparr>rows := insort_key rec_id
                        \<lparr>rec_id = keygen s, name = nm, payload = pl, timestamp = ts\<rparr> (rows s),
             keygen := keygen s + 1\<rparr>))"

definition snap_getAll :: "'p snapstore \<Rightarrow> (error + 'p snapshot list) \<times> 'p snapstore" where
  "snap_getAll s = (Inr (rows s), s)"

definition snap_delete :: "nat \<Rightarrow> 'p snapshot list \<Rightarrow> 'p snapshot list" where
  "snap_delete k rs = filter (\<lambda>r. rec_id r \<noteq> k) rs"

text \<open>
  The \<^verbatim>\<open>timestamp\<close> index orders its entries by timestamp and, among equal timestamps, by
  primary key. A cursor opened with direction \<^verbatim>\<open>'prev'\<close> starts at the greatest entry;
  \<^verbatim>\<open>cursor.continue()\<close> moves it to the greatest entry below its position in the store as
  it is then.
\<close>

definition ikey :: "'p snapshot \<Rightarrow> int \<times> nat" where
  "ikey r = (timestamp r, rec_id r)"

definition index_desc :: "'p snapshot list \<Rightarrow> 'p snapshot list" where
  "index_desc rs = rev (sort_key ikey rs)"

definition openCursor_prev :: "'p snapshot list \<Rightarrow> 'p snapshot option" where
  "openCursor_prev rs = (case index_desc rs of [] \<Rightarrow> None | r # _ \<Rightarrow> Some r)"

definition cursor_continue :: "'p snapshot list \<Rightarrow> 'p snapshot \<Rightarrow> 'p snapshot option" where
  "cursor_continue rs r =
     (case filter (\<lambda>x. ikey x < ikey r) (index_desc rs) of [] \<Rightarrow> None | x # _ \<Rightarrow> Some x)"

subsection \<open>The eviction transaction\<close>

text \<open>
  The second half of \<^verbatim>\<open>saveState\<close> and of \<^verbatim>\<open>saveParking\<close> is the same code. The closure of
  the promise executor holds \<^verbatim>\<open>count\<close> and the promise that the call returns.
  \<open>cursor_onsuccess\<close> is \<^verbatim>\<open>cursorRequest.onsuccess\<close>: it returns the new closure, the primary
  keys it passed to \<^verbatim>\<open>store.delete\<close>, and whether it called \<^verbatim>\<open>cursor.continue()\<close>.
\<close>

datatype 'p tx_event = CursorSuccess "'p snapshot option" | TxComplete

record trim_closure =
  visit_count :: int
  promise :: "unit settled"

definition cursor_onsuccess ::
  "int \<Rightarrow> 'p snapshot option \<Rightarrow> trim_closure \<Rightarrow> trim_closure \<times> nat list \<times> bool" where
  "cursor_onsuccess limit cursor h =
     (case cursor of
        Some r \<Rightarrow>
          (let c = visit_count h + 1
           in (h\<lparr>visit_count := c\<rparr>, (if c > limit then [rec_id r] else []), True))
      | None \<Rightarrow> (h\<lparr>promise := resolve () (promise h)\<rparr>, [], False))"

definition cursor_onerror :: "error \<Rightarrow> trim_closure \<Rightarrow> trim_closure" where
  "cursor_onerror e h = h\<lparr>promise := reject e (promise h)\<rparr>"

definition transaction_onerror :: "error \<Rightarrow> trim_closure \<Rightarrow> trim_closure" where
  "transaction_onerror e h = h\<lparr>promise := reject e (promise h)\<rparr>"

definition transaction_oncomplete :: "trim_closure \<Rightarrow> trim_closure" where
  "transaction_oncomplete h = h\<lparr>promise := resolve () (promise h)\<rparr>"

text \<open>
  The platform dispatches one success event of the cursor request, runs the handler,
  serves the delete requests that the handler queued and then the continue request,
  which leads to the next success event. The trace records the events that have a
  handler, each with the state of the returned promise after its handler; the success
  events of the delete requests have none.
\<close>

function trim_cursor ::
  "int \<Rightarrow> 'p snapshot list \<Rightarrow> 'p snapshot option \<Rightarrow> trim_closure \<Rightarrow>
     ('p tx_event \<times> unit settled) list \<Rightarrow>
     'p snapshot list \<times> trim_closure \<times> ('p tx_event \<times> unit settled) list" where
  "trim_cursor limit rs cursor h tr =
     (let (h1, dels, cont) = cursor_onsuccess limit cursor h;
          rs1 = fold snap_delete dels rs;
          tr1 = tr @ [(CursorSuccess cursor, promise h1)]
      in case cursor of
           Some r \<Rightarrow>
             if cont then trim_cursor limit rs1 (cursor_continue rs1 r) h1 tr1
             else (rs1, h1, tr1)
         | None \<Rightarrow> (rs1, h1, tr1))"
  by pat_completeness auto

text \<open>Termination: the number of records below the position of the cursor decreases.\<close>

definition below :: "'p snapshot list \<Rightarrow> 'p snapshot option \<Rightarrow> nat" where
  "below rs cursor =
     (case cursor of None \<Rightarrow> 0 | Some r \<Rightarrow> Suc (length (filter (\<lambda>x. ikey x < ikey r) rs)))"

lemma fold_snap_delete: "fold snap_delete dels rs = filter (\<lambda>r. rec_id r \<notin> set dels) rs"
  by (induction dels arbitrary: rs) (auto simp: snap_delete_def intro: filter_cong)

lemma set_index_desc [simp]: "set (index_desc rs) = set rs"
  by (simp add: index_desc_def)

lemma below_decreases:
  assumes "filter (\<lambda>x. ikey x < ikey r) (index_desc (filter Q rs)) = y # ys"
  shows "length (filter (\<lambda>x. ikey x < ikey y) (filter Q rs))
           < length (filter (\<lambda>x. ikey x < ikey r) rs)"
proof -
  have "y \<in> set (filter (\<lambda>x. ikey x < ikey r) (index_desc (filter Q rs)))"
    by (simp add: assms)
  then have y: "y \<in> set rs" "ikey y < ikey r" by auto
  let ?B = "filter (\<lambda>x. ikey x < ikey r) rs"
  have "filter (\<lambda>x. ikey x < ikey y) (filter Q rs) = filter (\<lambda>x. ikey x < ikey y \<and> Q x) ?B"
    using y(2) by (auto intro: filter_cong)
  moreover have "length (filter (\<lambda>x. ikey x < ikey y \<and> Q x) ?B) < length ?B"
    by (rule length_filter_less[of y]) (use y in auto)
  ultimately show ?thesis by simp
qed

termination trim_cursor
proof (relation "measure (\<lambda>(limit, rs, cursor, h, tr). below rs cursor)", goal_cases)
  case 1
  show ?case by simp
next
  case (2 limit rs cursor h tr x1 h1 x2 dels cont rs1 tr1 r)
  then show ?case
    by (auto simp: below_def cursor_continue_def fold_snap_delete
             split: list.splits dest: below_decreases)
qed

declare trim_cursor.simps [simp del]

text \<open>
  The whole transaction: the cursor is opened, the loop runs until the cursor is
  exhausted; no request is pending then, the transaction commits what the deletes wrote
  and the platform fires \<^verbatim>\<open>complete\<close>. The requests of this transaction are served
  without a failure of the platform, so \<open>cursor_onerror\<close> and \<open>transaction_onerror\<close>
  are not run; both reject the returned promise.
\<close>

definition trim_transaction ::
  "int \<Rightarrow> 'p snapstore \<Rightarrow> unit settled \<times> ('p tx_event \<times> unit settled) list \<times> 'p snapstore" where
  "trim_transaction limit s =
     (let (rs, h, tr) = trim_cursor limit (rows s) (openCursor_prev (rows s))
                          \<lparr>visit_count = 0, promise = Pending\<rparr> [];
          h1 = transaction_oncomplete h
      in (promise h1, tr @ [(TxComplete, promise h1)], s\<lparr>rows := rs\<rparr>))"

subsection \<open>\<^verbatim>\<open>saveState\<close>, \<^verbatim>\<open>saveParking\<close> and the sorted views\<close>

text \<open>
  The inputs of one call that the environment decides: the event the platform fires
  at a pending open request, the value of \<^verbatim>\<open>Date.now()\<close> and the fault of the add request.
  A missing \<^verbatim>\<open>limit\<close> argument (\<open>None\<close>) takes the default of the function.
\<close>

record env =
  open_ev :: open_event
  now :: int
  add_fault :: "error option"

definition add_snapshot ::
  "('a conn_scheme, 'p snapstore) store_name \<Rightarrow> error option \<Rightarrow> string \<Rightarrow> 'p \<Rightarrow> int \<Rightarrow>
     open_event \<Rightarrow> 'a conn_scheme \<Rightarrow> nat settled \<times> 'a conn_scheme" where
  "add_snapshot storeName fault nm pl ts =
     performTransaction storeName ReadWrite (snap_add fault nm pl ts)"

definition saveState ::
  "env \<Rightarrow> 'p \<Rightarrow> string \<Rightarrow> int option \<Rightarrow> ('v, 'p) world \<Rightarrow>
     unit settled \<times> ('p tx_event \<times> unit settled) list \<times> ('v, 'p) world" where
  "saveState ev state nm limit_arg w =
     (let limit = (case limit_arg of None \<Rightarrow> 5 | Some l \<Rightarrow> l)
      in case add_snapshot STORE_SAVED_STATES (add_fault ev) nm state (now ev) (open_ev ev) w of
           (Pending, w1) \<Rightarrow> (Pending, [], w1)
         | (Rejected e, w1) \<Rightarrow> (Rejected e, [], w1)
         | (Fulfilled k, w1) \<Rightarrow>
             (case await_getDB (open_ev ev) w1 of
                (Pending, w2) \<Rightarrow> (Pending, [], w2)
              | (Rejected e, w2) \<Rightarrow> (Rejected e, [], w2)
              | (Fulfilled db, w2) \<Rightarrow>
                  (let (p, tr, s) = trim_transaction limit (savedStates w2)
                   in (p, tr, w2\<lparr>savedStates := s\<rparr>))))"

definition saveParking ::
  "env \<Rightarrow> 'p \<Rightarrow> string \<Rightarrow> int option \<Rightarrow> ('v, 'p) world \<Rightarrow>
     unit settled \<times> ('p tx_event \<times> unit settled) list \<times> ('v, 'p) world" where
  "saveParking ev parkingData nm limit_arg w =
     (let limit = (case limit_arg of None \<Rightarrow> 20 | Some l \<Rightarrow> l)
      in case add_snapshot STORE_SAVED_PARKING (add_fault ev) nm parkingData (now ev) (open_ev ev) w of
           (Pending, w1) \<Rightarrow> (Pending, [], w1)
         | (Rejected e, w1) \<Rightarrow> (Rejected e, [], w1)
         | (Fulfilled k, w1) \<Rightarrow>
             (case await_getDB (open_ev ev) w1 of
                (Pending, w2) \<Rightarrow> (Pending, [], w2)
              | (Rejected e, w2) \<Rightarrow> (Rejected e, [], w2)
              | (Fulfilled db, w2) \<Rightarrow>
                  (let (p, tr, s) = trim_transaction limit (savedParking w2)
                   in (p, tr, w2\<lparr>savedParking := s\<rparr>))))"

text \<open>
  \<^verbatim>\<open>states.sort((a, b) => b.timestamp - a.timestamp)\<close>: the sort of an array is stable, so
  it is the stable sort by descending timestamp of the array that \<^verbatim>\<open>getAll\<close> returned.
\<close>

definition sort_desc :: "'p snapshot list \<Rightarrow> 'p snapshot list" where
  "sort_desc xs = sort_key (\<lambda>r. - timestamp r) xs"

definition getAllSavedStates ::
  "open_event \<Rightarrow> ('v, 'p) world \<Rightarrow> 'p snapshot list settled \<times> ('v, 'p) world" where
  "getAllSavedStates po w =
     (case performTransaction STORE_SAVED_STATES ReadOnly snap_getAll po w of
        (Fulfilled states, w1) \<Rightarrow> (Fulfilled (sort_desc states), w1)
      | (Rejected e, w1) \<Rightarrow> (Rejected e, w1)
      | (Pending, w1) \<Rightarrow> (Pending, w1))"

definition getAllSavedParking ::
  "open_event \<Rightarrow> ('v, 'p) world \<Rightarrow> 'p snapshot list settled \<times> ('v, 'p) world" where
  "getAllSavedParking po w =
     (case performTransaction STORE_SAVED_PARKING ReadOnly snap_getAll po w of
        (Fulfilled parkingList, w1) \<Rightarrow> (Fulfilled (sort_desc parkingList), w1)
      | (Rejected e, w1) \<Rightarrow> (Rejected e, w1)
      | (Pending, w1) \<Rightarrow> (Pending, w1))"

section \<open>Store lifecycle: \<^verbatim>\<open>clearDatabase\<close>\<close>

text \<open>
  \<^verbatim>\<open>clearDatabase\<close> awaits the memoized promise, closes the connection or logs the
  rejection, and sets \<^verbatim>\<open>dbPromise\<close> to \<^verbatim>\<open>null\<close> in both cases. Then it asks the platform to
  delete the database; \<open>de\<close> is the event the platform answers with. A deleted database
  has no records, and its key generators start again at 1.
\<close>

datatype delete_event = DeleteSuccess | DeleteError error | DeleteBlockedEvent

definition empty_snapstore :: "'p snapstore" where
  "empty_snapstore = \<lparr>rows = [], keygen = 1\<rparr>"

definition clearDatabase ::
  "open_event \<Rightarrow> delete_event \<Rightarrow> ('v, 'p) world \<Rightarrow> unit settled \<times> ('v, 'p) world" where
  "clearDatabase po de w =
     (let (w1, suspended) =
            (case dbPromise w of
               None \<Rightarrow> (w, False)
             | Some p \<Rightarrow>
                 (let w' = (case promises w p of
                              Pending \<Rightarrow> deliver p po w
                            | Fulfilled h \<Rightarrow> w
                            | Rejected e \<Rightarrow> w)
                  in case promises w' p of
                       Pending \<Rightarrow> (w', True)
                     | Fulfilled h \<Rightarrow> (w'\<lparr>dbPromise := None\<rparr>, False)
                     | Rejected e \<Rightarrow> (w'\<lparr>dbPromise := None\<rparr>, False)))
      in if suspended then (Pending, w1)
         else (case de of
                 DeleteSuccess \<Rightarrow>
                   (resolve () Pending,
                    w1\<lparr>families := [], cars := [],
                       savedStates := empty_snapstore, savedParking := empty_snapstore\<rparr>)
               | DeleteError e \<Rightarrow> (reject e Pending, w1)
               | DeleteBlockedEvent \<Rightarrow> (reject DeleteBlocked Pending, w1)))"

definition initial_world :: "('v, 'p) world" where
  "initial_world =
     \<lparr>dbPromise = None, promises = (\<lambda>_. Pending), opens = 0,
      families = [], cars = [],
      savedStates = empty_snapstore, savedParking = empty_snapstore\<rparr>"

section \<open>Sequences of calls and the shape of a trace\<close>

text \<open>
  The platform keeps the primary keys of a store distinct and its key generator above
  every key in use.
\<close>

definition wf_store :: "'p snapstore \<Rightarrow> bool" where
  "wf_store s = (distinct (map rec_id (rows s)) \<and> list_all (\<lambda>r. rec_id r < keygen s) (rows s))"

text \<open>
  A single caller issues \<^verbatim>\<open>saveState\<close> (or \<^verbatim>\<open>saveParking\<close>) calls one after the other with
  the same limit, each call in an environment of its own. The result lists, for every
  call in order: whether the promise of its \<^verbatim>\<open>add\<close> was fulfilled, the promise the call
  returned, and the number of records of the collection when the call and its
  transactions were done.
\<close>

definition fulfilled :: "'a settled \<Rightarrow> bool" where
  "fulfilled p = (case p of Fulfilled v \<Rightarrow> True | Pending \<Rightarrow> False | Rejected e \<Rightarrow> False)"



text \<open>
  Whether a trace shows the returned promise fulfilled after an event that comes before
  the \<^verbatim>\<open>complete\<close> event of the transaction.
\<close>

fun resolved_before_complete :: "('p tx_event \<times> unit settled) list \<Rightarrow> bool" where
  "resolved_before_complete [] = False"
| "resolved_before_complete ((e, p) # tr) =
     (if e = TxComplete then False
      else if p = Fulfilled () then True
      else resolved_before_complete tr)"

section \<open>Offline cache controller (\<^verbatim>\<open>sw.js\<close>)\<close>

text \<open>
  A response has a status and a type (\<^verbatim>\<open>'basic'\<close>, \<^verbatim>\<open>'cors'\<close>, \<^verbatim>\<open>'opaque'\<close>, or another
  one). A cache bucket maps request URLs to responses; the cache storage is the list of
  the named buckets in creation order. The network is an input of the model: \<open>None\<close>
  is a failed fetch.
\<close>

datatype response_type = Basic | Cors | Opaque | OtherType

record response =
  status :: nat
  rtype :: response_type
  body :: string

type_synonym cache = "(string \<times> response) list"
type_synonym cache_storage = "(string \<times> cache) list"

definition CACHE_NAME :: string where
  "CACHE_NAME = ''car-app-cache-v1''"

definition urlsToCache :: "string list" where
  "urlsToCache =
     [''./'', ''./index.html'', ''./master.html'', ''./manual.html'', ''./db.js'',
      ''./manifest.json'', ''./icons/icon-192x192.png'', ''./icons/icon-512x512.png'',
      ''https://cdn.tailwindcss.com/'']"

definition bucket :: "string \<Rightarrow> cache_storage \<Rightarrow> cache" where
  "bucket nm cs = (case map_of cs nm of None \<Rightarrow> [] | Some c \<Rightarrow> c)"

text \<open>\<^verbatim>\<open>caches.open\<close> creates the bucket when it is missing; \<open>fault\<close> is a failure of the platform.\<close>

definition caches_open :: "string \<Rightarrow> error option \<Rightarrow> cache_storage \<Rightarrow> unit settled \<times> cache_storage" where
  "caches_open nm fault cs =
     (case fault of
        Some e \<Rightarrow> (Rejected e, cs)
      | None \<Rightarrow> (Fulfilled (), if nm \<in> fst ` set cs then cs else cs @ [(nm, [])]))"

definition cache_put :: "string \<Rightarrow> string \<Rightarrow> response \<Rightarrow> cache_storage \<Rightarrow> cache_storage" where
  "cache_put nm u r cs =
     map (\<lambda>(n, c). if n = nm then (n, (u, r) # filter (\<lambda>e. fst e \<noteq> u) c) else (n, c)) cs"

text \<open>
  The manifest holds URLs relative to the directory of the service worker script
  (\<^verbatim>\<open>./\<close>, \<^verbatim>\<open>./index.html\<close>) and one absolute URL. A request is made for the resolved URL,
  and a cache entry is keyed by it; \<open>base\<close> is the URL of that directory, with its
  final slash.
\<close>

definition resolve_url :: "string \<Rightarrow> string \<Rightarrow> string" where
  "resolve_url base u = (if prefix ''./'' u then base @ drop 2 u else u)"

text \<open>
  \<^verbatim>\<open>cache.addAll\<close> fetches every URL and stores the responses only when every fetch has
  answered with an ok status (200 to 299) other than 206; otherwise it rejects with a
  \<^verbatim>\<open>TypeError\<close> and stores nothing. Storing the batch of responses can fail as well
  (\<open>store_fault\<close>, a failure of the platform such as an exceeded quota, an input of the
  model); then it rejects with that error and stores nothing.
\<close>

definition fetch_ok :: "(string \<Rightarrow> response option) \<Rightarrow> string \<Rightarrow> bool" where
  "fetch_ok net u =
     (case net u of
        None \<Rightarrow> False
      | Some r \<Rightarrow> 200 \<le> status r \<and> status r \<le> 299 \<and> status r \<noteq> 206)"

definition cache_addAll ::
  "string \<Rightarrow> (string \<Rightarrow> response option) \<Rightarrow> error option \<Rightarrow> string list \<Rightarrow> string \<Rightarrow>
     cache_storage \<Rightarrow> unit settled \<times> cache_storage" where
  "cache_addAll base net store_fault urls nm cs =
     (let reqs = map (resolve_url base) urls
      in if list_all (fetch_ok net) reqs
         then (case store_fault of
                 Some e \<Rightarrow> (Rejected e, cs)
               | None \<Rightarrow>
                   (Fulfilled (),
                    fold (\<lambda>u acc. case net u of None \<Rightarrow> acc | Some r \<Rightarrow> cache_put nm u r acc)
                      reqs cs))
         else (Rejected TypeError, cs))"

text \<open>
  The install listener passes to \<^verbatim>\<open>event.waitUntil\<close> the promise
  \<^verbatim>\<open>caches.open(CACHE_NAME).then(cache => cache.addAll(urlsToCache)).catch(err => console.error(..))\<close>.
  The handler of \<^verbatim>\<open>catch\<close> logs the error and returns \<^verbatim>\<open>undefined\<close>. The install step fails
  when the promise given to \<^verbatim>\<open>waitUntil\<close> rejects. \<open>install\<close> returns the result of the
  install step, the cache storage and the errors logged.
\<close>

datatype install_result = Installed | InstallFailed | Installing

definition waitUntil :: "unit settled \<Rightarrow> install_result" where
  "waitUntil p = (case p of Fulfilled u \<Rightarrow> Installed | Rejected e \<Rightarrow> InstallFailed | Pending \<Rightarrow> Installing)"

definition promise_catch :: "(error \<Rightarrow> 'l) \<Rightarrow> unit settled \<Rightarrow> unit settled \<times> 'l list" where
  "promise_catch handler p =
     (case p of
        Rejected e \<Rightarrow> (Fulfilled (), [handler e])
      | Fulfilled u \<Rightarrow> (Fulfilled (), [])
      | Pending \<Rightarrow> (Pending, []))"

definition install ::
  "string \<Rightarrow> (string \<Rightarrow> response option) \<Rightarrow> error option \<Rightarrow> error option \<Rightarrow> cache_storage \<Rightarrow>
     install_result \<times> cache_storage \<times> error list" where
  "install base net open_fault store_fault cs =
     (let (p1, cs1) = caches_open CACHE_NAME open_fault cs;
          (p2, cs2) = (case p1 of
                         Fulfilled u \<Rightarrow> cache_addAll base net store_fault urlsToCache CACHE_NAME cs1
                       | Rejected e \<Rightarrow> (Rejected e, cs1)
                       | Pending \<Rightarrow> (Pending, cs1));
          (p3, logged) = promise_catch (\<lambda>err. err) p2
      in (waitUntil p3, cs2, logged))"

text \<open>
  The fetch listener. \<open>origin\<close> is \<^verbatim>\<open>self.location.origin\<close>, \<open>u\<close> is \<^verbatim>\<open>event.request.url\<close>;
  \<^verbatim>\<open>startsWith\<close> is the prefix test on strings. The listener either returns without
  calling \<^verbatim>\<open>event.respondWith\<close>, or responds with the promise of a response, which may be
  \<^verbatim>\<open>undefined\<close> (\<open>None\<close>). \<^verbatim>\<open>caches.match\<close> looks the request up in every bucket.
\<close>

datatype responded = NotIntercepted | RespondWith "response option"

definition caches_match :: "string \<Rightarrow> cache_storage \<Rightarrow> response option" where
  "caches_match u cs = map_of (concat (map snd cs)) u"

definition store_response :: "string \<Rightarrow> response \<Rightarrow> cache_storage \<Rightarrow> cache_storage" where
  "store_response u r cs = cache_put CACHE_NAME u r (snd (caches_open CACHE_NAME None cs))"

definition fetch_listener ::
  "string \<Rightarrow> string \<Rightarrow> response option \<Rightarrow> cache_storage \<Rightarrow> responded \<times> cache_storage" where
  "fetch_listener origin u net cs =
     (if \<not> prefix origin u \<and> \<not> prefix ''https://cdn.tailwindcss.com'' u
      then (NotIntercepted, cs)
      else
        (case net of
           Some resp \<Rightarrow>
             (if status resp \<noteq> 200 \<or> rtype resp \<noteq> Basic
              then (if prefix ''https://cdn.tailwindcss.com'' u \<and> rtype resp = Opaque
                    then (RespondWith (Some resp), store_response u resp cs)
                    else (RespondWith (Some resp), cs))
              else (RespondWith (Some resp), store_response u resp cs))
         | None \<Rightarrow> (RespondWith (caches_match u cs), cs)))"

text \<open>
  The origin of a URL as the specification uses the word: its scheme, host and port,
  that is the URL up to the end of its authority. This definition follows the
  specification, not the code; the code has no such function.
\<close>

fun split_scheme :: "string \<Rightarrow> (string \<times> string) option" where
  "split_scheme [] = None"
| "split_scheme (c # cs) =
     (if prefix ''://'' (c # cs) then Some ([], drop 3 (c # cs))
      else map_option (\<lambda>(a, b). (c # a, b)) (split_scheme cs))"

definition spec_origin :: "string \<Rightarrow> string" where
  "spec_origin u =
     (case split_scheme u of
        None \<Rightarrow> u
      | Some (sch, rest) \<Rightarrow> sch @ ''://'' @ takeWhile (\<lambda>c. c \<notin> set ''/?#'') rest)"

section \<open>Properties of the connection manager\<close>

lemma getDB_memo: "dbPromise c = Some p \<Longrightarrow> getDB c = (p, c)"
  by (simp add: getDB_def)


lemma deliver_dbPromise [simp]: "dbPromise (deliver p ev c) = dbPromise c"
  by (simp add: deliver_def)

lemma deliver_opens [simp]: "opens (deliver p ev c) = opens c"
  by (simp add: deliver_def)




section \<open>Properties of the eviction transaction\<close>

lemma index_desc_filter: "index_desc (filter Q rs) = filter Q (index_desc rs)"
  by (simp add: index_desc_def filter_sort[symmetric] rev_filter)

lemma filter_swap: "filter P (filter Q xs) = filter Q (filter P xs)"
  by (simp add: conj_commute)

lemma ikey_inj: "distinct (map rec_id rs) \<Longrightarrow> inj_on ikey (set rs)"
  by (auto simp: inj_on_def ikey_def distinct_map)

lemma index_desc_strict:
  assumes "distinct (map rec_id rs)"
  shows "sorted_wrt (\<lambda>a b. ikey b < ikey a) (index_desc rs)"
proof -
  have d: "distinct (map ikey rs)"
    using assms ikey_inj[OF assms] by (simp add: distinct_map)
  have "sorted (map ikey (sort_key ikey rs))" by simp
  moreover have "distinct (map ikey (sort_key ikey rs))"
    using d by (metis distinct_sort mset_sort mset_map mset_eq_imp_distinct_iff)
  ultimately have "sorted_wrt (<) (map ikey (sort_key ikey rs))"
    by (simp add: strict_sorted_iff)
  then have "sorted_wrt (\<lambda>a b. ikey a < ikey b) (sort_key ikey rs)"
    by (simp add: sorted_wrt_map)
  then show ?thesis
    by (simp add: index_desc_def sorted_wrt_rev)
qed

lemma filter_below_next:
  "sorted_wrt (\<lambda>a b. ikey b < ikey a) L \<Longrightarrow> filter (\<lambda>x. ikey x < p) L = y # ys \<Longrightarrow>
     filter (\<lambda>x. ikey x < ikey y) L = ys"
proof (induction L)
  case Nil
  then show ?case by simp
next
  case (Cons a L)
  show ?case
  proof (cases "ikey a < p")
    case True
    with Cons.prems have e: "y = a" "ys = filter (\<lambda>x. ikey x < p) L" by auto
    from Cons.prems(1) have b: "\<forall>x\<in>set L. ikey x < ikey a" by simp
    have "filter (\<lambda>x. ikey x < p) L = L"
      using True b by (intro filter_True) auto
    moreover have "filter (\<lambda>x. ikey x < ikey a) L = L"
      using b by (intro filter_True) auto
    ultimately show ?thesis using e by simp
  next
    case False
    with Cons.prems have f: "filter (\<lambda>x. ikey x < p) L = y # ys" by simp
    from Cons.prems(1) have s: "sorted_wrt (\<lambda>a b. ikey b < ikey a) L" by simp
    have "y \<in> set (filter (\<lambda>x. ikey x < p) L)" by (simp add: f)
    then have "y \<in> set L" by simp
    with Cons.prems(1) have "ikey y < ikey a" by simp
    then have "\<not> ikey a < ikey y" by simp
    with Cons.IH[OF s f] show ?thesis by simp
  qed
qed

lemma filter_below_head:
  "sorted_wrt (\<lambda>a b. ikey b < ikey a) (r # L) \<Longrightarrow> filter (\<lambda>x. ikey x < ikey r) (r # L) = L"
  by (simp add: filter_True)

text \<open>The records the cursor still has to visit from position r on.\<close>

lemma trim_cursor_null:
  "trim_cursor limit rs None h tr =
     (rs, h\<lparr>promise := resolve () (promise h)\<rparr>,
      tr @ [(CursorSuccess None, resolve () (promise h))])"
  by (subst trim_cursor.simps) (simp add: cursor_onsuccess_def)

lemma trim_cursor_some:
  "trim_cursor limit rs (Some r) h tr =
     (let c = visit_count h + 1;
          rs1 = (if c > limit then snap_delete (rec_id r) rs else rs)
      in trim_cursor limit rs1 (cursor_continue rs1 r) (h\<lparr>visit_count := c\<rparr>)
           (tr @ [(CursorSuccess (Some r), promise h)]))"
  by (subst trim_cursor.simps) (simp add: cursor_onsuccess_def Let_def)

lemma trim_cursor_run:
  assumes "distinct (map rec_id rs)" "r \<in> set rs"
    "filter (\<lambda>x. ikey x < ikey r) (index_desc rs) = ys"
  shows "trim_cursor limit rs (Some r) h tr =
     (filter (\<lambda>x. x \<notin> set (drop (nat (limit - visit_count h)) (r # ys))) rs,
      h\<lparr>visit_count := visit_count h + 1 + int (length ys), promise := resolve () (promise h)\<rparr>,
      tr @ map (\<lambda>x. (CursorSuccess (Some x), promise h)) (r # ys)
         @ [(CursorSuccess None, resolve () (promise h))])"
  using assms
proof (induction ys arbitrary: rs r h tr)
  case Nil
  let ?c = "visit_count h + 1"
  let ?rs1 = "if ?c > limit then snap_delete (rec_id r) rs else rs"
  have sub: "?rs1 = filter (\<lambda>x. ?c > limit \<longrightarrow> rec_id x \<noteq> rec_id r) rs"
    by (simp add: snap_delete_def)
  have "filter (\<lambda>x. ikey x < ikey r) (index_desc ?rs1) = []"
    unfolding sub index_desc_filter using Nil.prems(3)
    by (subst filter_swap) simp
  then have n: "cursor_continue ?rs1 r = None" by (simp add: cursor_continue_def)
  have del: "snap_delete (rec_id r) rs = filter (\<lambda>x. x \<noteq> r) rs"
    unfolding snap_delete_def using Nil.prems(1,2)
    by (intro filter_cong) (auto simp: distinct_map inj_on_def)
  have step: "trim_cursor limit rs (Some r) h tr =
      trim_cursor limit ?rs1 None (h\<lparr>visit_count := ?c\<rparr>) (tr @ [(CursorSuccess (Some r), promise h)])"
    by (subst trim_cursor_some) (simp only: Let_def n)
  show ?case
  proof (cases "?c > limit")
    case True
    then have z: "nat (limit - visit_count h) = 0" by auto
    show ?thesis
      unfolding step trim_cursor_null using True
      by (simp add: z del)
  next
    case False
    then have z: "nat (limit - visit_count h) = Suc (nat (limit - (visit_count h + 1)))" by auto
    show ?thesis
      unfolding step trim_cursor_null using False
      by (simp add: z)
  qed
next
  case (Cons y ys)
  let ?c = "visit_count h + 1"
  let ?rs1 = "if ?c > limit then snap_delete (rec_id r) rs else rs"
  let ?h1 = "h\<lparr>visit_count := ?c\<rparr>"
  let ?tr1 = "tr @ [(CursorSuccess (Some r), promise h)]"
  have sub: "?rs1 = filter (\<lambda>x. ?c > limit \<longrightarrow> rec_id x \<noteq> rec_id r) rs"
    by (simp add: snap_delete_def)
  have del: "snap_delete (rec_id r) rs = filter (\<lambda>x. x \<noteq> r) rs"
    unfolding snap_delete_def using Cons.prems(1,2)
    by (intro filter_cong) (auto simp: distinct_map inj_on_def)
  have mem: "\<forall>x\<in>set (y # ys). x \<in> set rs \<and> ikey x < ikey r"
  proof
    fix x assume "x \<in> set (y # ys)"
    then have "x \<in> set (filter (\<lambda>x. ikey x < ikey r) (index_desc rs))"
      by (simp only: Cons.prems(3))
    then show "x \<in> set rs \<and> ikey x < ikey r" by simp
  qed
  then have ne: "\<forall>x\<in>set (y # ys). x \<noteq> r" by auto
  have keep: "filter (\<lambda>x. ?c > limit \<longrightarrow> rec_id x \<noteq> rec_id r) (y # ys) = y # ys"
  proof (rule filter_True, intro ballI impI)
    fix x assume x: "x \<in> set (y # ys)"
    with mem ne have "x \<in> set rs" "x \<noteq> r" by auto
    with Cons.prems(1,2) show "rec_id x \<noteq> rec_id r"
      by (auto simp: distinct_map inj_on_def)
  qed
  have f1: "filter (\<lambda>x. ikey x < ikey r) (index_desc ?rs1) = y # ys"
    unfolding sub index_desc_filter
    by (subst filter_swap) (simp only: Cons.prems(3) keep)
  then have nx: "cursor_continue ?rs1 r = Some y" by (simp add: cursor_continue_def)
  have d1: "distinct (map rec_id ?rs1)"
    unfolding sub using Cons.prems(1) by (simp add: distinct_map_filter)
  have "y \<in> set (filter (\<lambda>x. ikey x < ikey r) (index_desc ?rs1))" by (simp only: f1) simp
  then have y1: "y \<in> set ?rs1" by simp
  have f2: "filter (\<lambda>x. ikey x < ikey y) (index_desc ?rs1) = ys"
    by (rule filter_below_next[OF index_desc_strict[OF d1] f1])
  note IH = Cons.IH[OF d1 y1 f2, of ?h1 ?tr1]
  have step: "trim_cursor limit rs (Some r) h tr = trim_cursor limit ?rs1 (Some y) ?h1 ?tr1"
    by (subst trim_cursor_some) (simp only: Let_def nx)
  show ?case
  proof (cases "?c > limit")
    case True
    then have z: "nat (limit - visit_count h) = 0" "nat (limit - (visit_count h + 1)) = 0" by auto
    show ?thesis
      unfolding step IH using True
      by (simp add: z del)
  next
    case False
    then have z: "nat (limit - visit_count h) = Suc (nat (limit - (visit_count h + 1)))" by auto
    show ?thesis
      unfolding step IH using False
      by (simp add: z)
  qed
qed


lemma trim_transaction_eq:
  assumes "distinct (map rec_id (rows s))"
  shows "trim_transaction limit s =
     (Fulfilled (),
      map (\<lambda>x. (CursorSuccess (Some x), Pending)) (index_desc (rows s))
        @ [(CursorSuccess None, Fulfilled ()), (TxComplete, Fulfilled ())],
      s\<lparr>rows := filter (\<lambda>x. x \<notin> set (drop (nat limit) (index_desc (rows s)))) (rows s)\<rparr>)"
proof (cases "index_desc (rows s)")
  case Nil
  then have "rows s = []" by (metis set_index_desc set_empty)
  then show ?thesis
    by (simp add: trim_transaction_def openCursor_prev_def index_desc_def trim_cursor_null
          transaction_oncomplete_def resolve_def)
next
  case (Cons r L)
  have r: "r \<in> set (rows s)" by (metis Cons list.set_intros(1) set_index_desc)
  have f: "filter (\<lambda>x. ikey x < ikey r) (index_desc (rows s)) = L"
    using index_desc_strict[OF assms] unfolding Cons by (rule filter_below_head)
  show ?thesis
    by (simp add: trim_transaction_def openCursor_prev_def Cons
          trim_cursor_run[OF assms r f] transaction_oncomplete_def resolve_def)
qed

lemma nth_in_drop:
  assumes "distinct D" "i < length D"
  shows "(D ! i \<in> set (drop n D)) = (n \<le> i)"
proof
  assume "D ! i \<in> set (drop n D)"
  then obtain j where j: "j < length (drop n D)" "drop n D ! j = D ! i"
    by (auto simp: in_set_conv_nth)
  then have "D ! (n + j) = D ! i" "n + j < length D" by auto
  with assms have "n + j = i" by (simp add: nth_eq_iff_index_eq)
  then show "n \<le> i" by simp
next
  assume "n \<le> i"
  then have "D ! i = drop n D ! (i - n)" "i - n < length (drop n D)" using assms(2) by auto
  then show "D ! i \<in> set (drop n D)" by (metis nth_mem)
qed

lemma index_desc_distinct: "distinct (map rec_id rs) \<Longrightarrow> distinct (index_desc rs)"
  by (simp add: index_desc_def distinct_map)

lemma index_desc_sorted: "sorted_wrt (\<lambda>a b. timestamp b \<le> timestamp a) (index_desc rs)"
proof -
  have "sorted_wrt (\<lambda>a b. ikey a \<le> ikey b) (sort_key ikey rs)"
    using sorted_sort_key[of ikey rs] by (simp only: sorted_wrt_map)
  then have "sorted_wrt (\<lambda>a b. timestamp a \<le> timestamp b) (sort_key ikey rs)"
    by (rule sorted_wrt_mono_rel[rotated]) (auto simp: ikey_def less_eq_prod_def)
  then show ?thesis by (simp add: index_desc_def sorted_wrt_rev)
qed

text \<open>
  C8. The eviction pass visits the records in descending order of the timestamp index;
  the record visited as number \<open>i + 1\<close> survives exactly when \<open>i + 1 \<le> limit\<close>, so
  exactly the records whose visit rank exceeds \<open>limit\<close> are deleted. With a limit of 0 or
  less every record is deleted, the one just added included; with no more records than
  \<open>limit\<close> nothing is deleted.
\<close>

theorem eviction_by_rank:
  assumes "distinct (map rec_id (rows s))" "trim_transaction limit s = (p, tr, s')"
  shows "map fst tr = map (\<lambda>x. CursorSuccess (Some x)) (index_desc (rows s))
                        @ [CursorSuccess None, TxComplete]
       \<and> sorted_wrt (\<lambda>a b. timestamp b \<le> timestamp a) (index_desc (rows s))
       \<and> set (rows s') \<subseteq> set (rows s)
       \<and> (\<forall>i<length (index_desc (rows s)).
             (index_desc (rows s) ! i \<in> set (rows s')) = (int i + 1 \<le> limit))
       \<and> (limit \<le> 0 \<longrightarrow> rows s' = [])
       \<and> (int (length (rows s)) \<le> limit \<longrightarrow> rows s' = rows s)"
proof -
  let ?D = "index_desc (rows s)"
  from assms(2) trim_transaction_eq[OF assms(1), of limit]
  have tr: "tr = map (\<lambda>x. (CursorSuccess (Some x), Pending)) ?D
                 @ [(CursorSuccess None, Fulfilled ()), (TxComplete, Fulfilled ())]"
    and s': "rows s' = filter (\<lambda>x. x \<notin> set (drop (nat limit) ?D)) (rows s)"
    by auto
  have d: "distinct ?D" by (rule index_desc_distinct[OF assms(1)])
  have len: "length ?D = length (rows s)" by (simp add: index_desc_def)
  have 1: "map fst tr = map (\<lambda>x. CursorSuccess (Some x)) ?D @ [CursorSuccess None, TxComplete]"
    by (simp add: tr comp_def)
  have 3: "set (rows s') \<subseteq> set (rows s)" by (auto simp: s')
  have 4: "\<forall>i<length ?D. (?D ! i \<in> set (rows s')) = (int i + 1 \<le> limit)"
  proof (intro allI impI)
    fix i assume i: "i < length ?D"
    then have "?D ! i \<in> set (rows s)" by (metis nth_mem set_index_desc)
    then have "(?D ! i \<in> set (rows s')) = (?D ! i \<notin> set (drop (nat limit) ?D))"
      by (simp add: s')
    also have "\<dots> = (\<not> nat limit \<le> i)" by (simp add: nth_in_drop[OF d i])
    also have "\<dots> = (int i + 1 \<le> limit)" by auto
    finally show "(?D ! i \<in> set (rows s')) = (int i + 1 \<le> limit)" .
  qed
  have 5: "limit \<le> 0 \<longrightarrow> rows s' = []"
    by (auto simp: s' filter_empty_conv)
  have 6: "int (length (rows s)) \<le> limit \<longrightarrow> rows s' = rows s"
    by (simp add: s' len)
  from 1 index_desc_sorted 3 4 5 6 show ?thesis by blast
qed

section \<open>Properties of \<^verbatim>\<open>saveState\<close> and \<^verbatim>\<open>saveParking\<close>\<close>

lemma await_getDB_stores:
  fixes w :: "('v, 'p) world"
  assumes "await_getDB po w = (r, w1)"
  shows "families w1 = families w" "cars w1 = cars w"
    "savedStates w1 = savedStates w" "savedParking w1 = savedParking w"
  using assms
  by (auto simp: await_getDB_def getDB_def deliver_def Let_def split: option.splits settled.splits)


lemma snap_add_wf:
  assumes "wf_store s" "snap_add fault nm pl ts s = (r, s1)"
  shows "wf_store s1"
proof (cases fault)
  case None
  let ?x = "\<lparr>rec_id = keygen s, name = nm, payload = pl, timestamp = ts\<rparr>"
  from None assms(2) have s1: "rows s1 = insort_key rec_id ?x (rows s)" "keygen s1 = keygen s + 1"
    by (auto simp: snap_add_def)
  from assms(1) have d: "distinct (rows s)" "inj_on rec_id (set (rows s))"
    and lt: "\<forall>r\<in>set (rows s). rec_id r < keygen s"
    by (simp_all add: wf_store_def distinct_map list_all_iff)
  from lt have fresh: "rec_id ?x \<notin> rec_id ` set (rows s)" by auto
  then have nx: "?x \<notin> set (rows s)" by blast
  have 1: "distinct (rows s1)" using d(1) nx by (simp add: s1 distinct_insort)
  have 2: "inj_on rec_id (set (rows s1))"
    unfolding s1 set_insort_key using d(2) fresh by (simp only: inj_on_insert) blast
  have 3: "\<forall>r\<in>set (rows s1). rec_id r < keygen s1"
    unfolding s1 set_insort_key using lt by auto
  from 1 2 3 show ?thesis by (simp add: wf_store_def distinct_map list_all_iff)
next
  case (Some e)
  with assms show ?thesis by (simp add: snap_add_def)
qed


lemma await_getDB_memo:
  assumes "await_getDB po w = (r, w1)"
  shows "\<exists>p. dbPromise w1 = Some p \<and> promises w1 p = r"
  using assms
  by (auto simp: await_getDB_def getDB_def deliver_def Let_def split: option.splits settled.splits)

lemma await_getDB_settled:
  assumes "dbPromise w = Some p" "promises w p \<noteq> Pending"
  shows "await_getDB po w = (promises w p, w)"
  using assms
  by (auto simp: await_getDB_def getDB_def split: settled.splits)

lemma performTransaction_pending:
  "await_getDB po w = (Pending, w1) \<Longrightarrow> performTransaction sn md act po w = (Pending, w1)"
  by (simp add: performTransaction_def)

lemma performTransaction_rejected:
  "await_getDB po w = (Rejected e, w1) \<Longrightarrow> performTransaction sn md act po w = (Rejected e, w1)"
  by (simp add: performTransaction_def)

lemma performTransaction_fulfilled:
  "await_getDB po w = (Fulfilled h, w1) \<Longrightarrow>
     performTransaction sn md act po w =
       (case act (fst sn w1) of
          (Inl e, s') \<Rightarrow> (Rejected e, w1)
        | (Inr r, s') \<Rightarrow> (Fulfilled r, if md = ReadWrite then snd sn s' w1 else w1))"
  by (simp add: performTransaction_def reject_def resolve_def split: prod.splits sum.splits)

lemma saveState_unfold:
  "saveState ev st nm lim w =
     (case add_snapshot STORE_SAVED_STATES (add_fault ev) nm st (now ev) (open_ev ev) w of
        (Pending, w1) \<Rightarrow> (Pending, [], w1)
      | (Rejected e, w1) \<Rightarrow> (Rejected e, [], w1)
      | (Fulfilled k, w1) \<Rightarrow>
          (case await_getDB (open_ev ev) w1 of
             (Pending, w2) \<Rightarrow> (Pending, [], w2)
           | (Rejected e, w2) \<Rightarrow> (Rejected e, [], w2)
           | (Fulfilled db, w2) \<Rightarrow>
               (case trim_transaction (case lim of None \<Rightarrow> 5 | Some l \<Rightarrow> l) (savedStates w2) of
                  (p, tr, s) \<Rightarrow> (p, tr, w2\<lparr>savedStates := s\<rparr>))))"
  by (simp only: saveState_def Let_def)

lemma add_snapshot_states:
  fixes w :: "('v, 'p) world"
  assumes "add_snapshot STORE_SAVED_STATES fault nm pl ts po w = (r, w1)"
  shows "(\<exists>k. r = Fulfilled k \<and>
            (fst (snap_add fault nm pl ts (savedStates w)), savedStates w1) =
              (Inr k, snd (snap_add fault nm pl ts (savedStates w))) \<and>
            (\<exists>p. dbPromise w1 = Some p \<and> promises w1 p \<noteq> Pending))
       \<or> (\<forall>k. r \<noteq> Fulfilled k) \<and> savedStates w1 = savedStates w"
proof -
  obtain q w0 where a: "await_getDB po w = (q, w0)" by (cases "await_getDB po w")
  note st0 = await_getDB_stores(3)[OF a]
  from await_getDB_memo[OF a] obtain p where m: "dbPromise w0 = Some p" "promises w0 p = q" by auto
  show ?thesis
  proof (cases q)
    case Pending
    with a have "add_snapshot STORE_SAVED_STATES fault nm pl ts po w = (Pending, w0)"
      by (simp add: add_snapshot_def performTransaction_pending)
    with assms st0 show ?thesis by auto
  next
    case (Rejected e)
    with a have "add_snapshot STORE_SAVED_STATES fault nm pl ts po w = (Rejected e, w0)"
      by (simp add: add_snapshot_def performTransaction_rejected)
    with assms st0 show ?thesis by auto
  next
    case (Fulfilled h)
    with a have e: "add_snapshot STORE_SAVED_STATES fault nm pl ts po w =
        (case snap_add fault nm pl ts (savedStates w0) of
          (Inl e, s') \<Rightarrow> (Rejected e, w0)
        | (Inr r, s') \<Rightarrow> (Fulfilled r, w0\<lparr>savedStates := s'\<rparr>))"
      by (auto simp: add_snapshot_def performTransaction_fulfilled STORE_SAVED_STATES_def
            split: prod.splits sum.splits)
    obtain x s1 where sa: "snap_add fault nm pl ts (savedStates w) = (x, s1)"
      by (cases "snap_add fault nm pl ts (savedStates w)")
    show ?thesis
    proof (cases x)
      case (Inl err)
      with e sa st0 assms show ?thesis by auto
    next
      case (Inr k)
      with e sa st0 assms have "r = Fulfilled k" "w1 = w0\<lparr>savedStates := s1\<rparr>" by auto
      with sa Inr m Fulfilled show ?thesis by auto
    qed
  qed
qed


lemma saveParking_unfold:
  "saveParking ev st nm lim w =
     (case add_snapshot STORE_SAVED_PARKING (add_fault ev) nm st (now ev) (open_ev ev) w of
        (Pending, w1) \<Rightarrow> (Pending, [], w1)
      | (Rejected e, w1) \<Rightarrow> (Rejected e, [], w1)
      | (Fulfilled k, w1) \<Rightarrow>
          (case await_getDB (open_ev ev) w1 of
             (Pending, w2) \<Rightarrow> (Pending, [], w2)
           | (Rejected e, w2) \<Rightarrow> (Rejected e, [], w2)
           | (Fulfilled db, w2) \<Rightarrow>
               (case trim_transaction (case lim of None \<Rightarrow> 20 | Some l \<Rightarrow> l) (savedParking w2) of
                  (p, tr, s) \<Rightarrow> (p, tr, w2\<lparr>savedParking := s\<rparr>))))"
  by (simp only: saveParking_def Let_def)

lemma add_snapshot_parking:
  fixes w :: "('v, 'p) world"
  assumes "add_snapshot STORE_SAVED_PARKING fault nm pl ts po w = (r, w1)"
  shows "(\<exists>k. r = Fulfilled k \<and>
            (fst (snap_add fault nm pl ts (savedParking w)), savedParking w1) =
              (Inr k, snd (snap_add fault nm pl ts (savedParking w))) \<and>
            (\<exists>p. dbPromise w1 = Some p \<and> promises w1 p \<noteq> Pending))
       \<or> (\<forall>k. r \<noteq> Fulfilled k) \<and> savedParking w1 = savedParking w"
proof -
  obtain q w0 where a: "await_getDB po w = (q, w0)" by (cases "await_getDB po w")
  note st0 = await_getDB_stores(4)[OF a]
  from await_getDB_memo[OF a] obtain p where m: "dbPromise w0 = Some p" "promises w0 p = q" by auto
  show ?thesis
  proof (cases q)
    case Pending
    with a have "add_snapshot STORE_SAVED_PARKING fault nm pl ts po w = (Pending, w0)"
      by (simp add: add_snapshot_def performTransaction_pending)
    with assms st0 show ?thesis by auto
  next
    case (Rejected e)
    with a have "add_snapshot STORE_SAVED_PARKING fault nm pl ts po w = (Rejected e, w0)"
      by (simp add: add_snapshot_def performTransaction_rejected)
    with assms st0 show ?thesis by auto
  next
    case (Fulfilled h)
    with a have e: "add_snapshot STORE_SAVED_PARKING fault nm pl ts po w =
        (case snap_add fault nm pl ts (savedParking w0) of
          (Inl e, s') \<Rightarrow> (Rejected e, w0)
        | (Inr r, s') \<Rightarrow> (Fulfilled r, w0\<lparr>savedParking := s'\<rparr>))"
      by (auto simp: add_snapshot_def performTransaction_fulfilled STORE_SAVED_PARKING_def
            split: prod.splits sum.splits)
    obtain x s1 where sa: "snap_add fault nm pl ts (savedParking w) = (x, s1)"
      by (cases "snap_add fault nm pl ts (savedParking w)")
    show ?thesis
    proof (cases x)
      case (Inl err)
      with e sa st0 assms show ?thesis by auto
    next
      case (Inr k)
      with e sa st0 assms have "r = Fulfilled k" "w1 = w0\<lparr>savedParking := s1\<rparr>" by auto
      with sa Inr m Fulfilled show ?thesis by auto
    qed
  qed
qed



lemma trim_cursor_shape:
  "trim_cursor limit rs cur h tr = (rs', h', tr') \<Longrightarrow>
     \<exists>vis. tr' = tr @ map (\<lambda>x. (CursorSuccess (Some x), promise h)) vis
                      @ [(CursorSuccess None, resolve () (promise h))]
         \<and> promise h' = resolve () (promise h)"
proof (induction limit rs cur h tr arbitrary: rs' h' tr' rule: trim_cursor.induct)
  case (1 limit rs cursor h tr)
  show ?case
  proof (cases cursor)
    case None
    with "1.prems" show ?thesis by (auto simp: trim_cursor_null)
  next
    case (Some r)
    let ?c = "visit_count h + 1"
    let ?rs1 = "if ?c > limit then snap_delete (rec_id r) rs else rs"
    let ?h1 = "h\<lparr>visit_count := ?c\<rparr>"
    let ?tr1 = "tr @ [(CursorSuccess (Some r), promise h)]"
    have co: "cursor_onsuccess limit cursor h = (?h1, (if ?c > limit then [rec_id r] else []), True)"
      by (simp add: cursor_onsuccess_def Some Let_def)
    have f: "fold snap_delete (if ?c > limit then [rec_id r] else []) rs = ?rs1" by simp
    from "1.prems" have run: "trim_cursor limit ?rs1 (cursor_continue ?rs1 r) ?h1 ?tr1 = (rs', h', tr')"
      by (simp add: Some trim_cursor_some Let_def)
    have "\<exists>vis. tr' = ?tr1 @ map (\<lambda>x. (CursorSuccess (Some x), promise ?h1)) vis
                      @ [(CursorSuccess None, resolve () (promise ?h1))]
         \<and> promise h' = resolve () (promise ?h1)"
      by (rule "1.IH"[OF co[symmetric] refl refl f[symmetric] _ Some _ run]) (simp_all add: Some)
    then obtain vis where v: "tr' = ?tr1 @ map (\<lambda>x. (CursorSuccess (Some x), promise h)) vis
                      @ [(CursorSuccess None, resolve () (promise h))]"
         "promise h' = resolve () (promise h)" by auto
    then have "tr' = tr @ map (\<lambda>x. (CursorSuccess (Some x), promise h)) (r # vis)
                      @ [(CursorSuccess None, resolve () (promise h))]" by simp
    with v(2) show ?thesis by blast
  qed
qed


lemma trim_transaction_shape:
  assumes "trim_transaction limit s = (p, tr, s')"
  shows "p = Fulfilled () \<and>
         (\<exists>vis. tr = map (\<lambda>x. (CursorSuccess (Some x), Pending)) vis
                       @ [(CursorSuccess None, Fulfilled ()), (TxComplete, Fulfilled ())])"
proof -
  obtain rs h tr0 where c: "trim_cursor limit (rows s) (openCursor_prev (rows s))
        \<lparr>visit_count = 0, promise = Pending\<rparr> [] = (rs, h, tr0)"
    by (cases "trim_cursor limit (rows s) (openCursor_prev (rows s))
        \<lparr>visit_count = 0, promise = Pending\<rparr> []") auto
  from trim_cursor_shape[OF c] obtain vis where
    v: "tr0 = map (\<lambda>x. (CursorSuccess (Some x), Pending)) vis @ [(CursorSuccess None, Fulfilled ())]"
       "promise h = Fulfilled ()"
    by (auto simp: resolve_def)
  from assms c have "p = promise (transaction_oncomplete h)"
    "tr = tr0 @ [(TxComplete, promise (transaction_oncomplete h))]"
    by (auto simp: trim_transaction_def Let_def)
  with v show ?thesis by (auto simp: transaction_oncomplete_def resolve_def)
qed

lemma resolved_before_complete_shape:
  "resolved_before_complete
     (map (\<lambda>x. (CursorSuccess (Some x), Pending)) vis
        @ [(CursorSuccess None, Fulfilled ()), (TxComplete, Fulfilled ())])"
  by (induction vis) auto

lemma saveState_fulfilled:
  assumes "saveState ev st nm lim w = (Fulfilled u, tr, w')"
  shows "\<exists>limit s s'. trim_transaction limit s = (Fulfilled u, tr, s')"
  using assms
  by (auto simp: saveState_unfold split: prod.splits settled.splits)

lemma saveParking_fulfilled:
  assumes "saveParking ev st nm lim w = (Fulfilled u, tr, w')"
  shows "\<exists>limit s s'. trim_transaction limit s = (Fulfilled u, tr, s')"
  using assms
  by (auto simp: saveParking_unfold split: prod.splits settled.splits)

lemma add_snapshot_states_memo:
  fixes w :: "('v, 'p) world"
  assumes "add_snapshot STORE_SAVED_STATES fault nm pl ts po w = (Fulfilled k, w1)"
  shows "\<exists>p h. dbPromise w1 = Some p \<and> promises w1 p = Fulfilled h"
proof -
  obtain q w0 where a: "await_getDB po w = (q, w0)" by (cases "await_getDB po w")
  from await_getDB_memo[OF a] obtain p where m: "dbPromise w0 = Some p" "promises w0 p = q" by auto
  show ?thesis
  proof (cases q)
    case Pending
    with a assms show ?thesis by (simp add: add_snapshot_def performTransaction_pending)
  next
    case (Rejected e)
    with a assms show ?thesis by (simp add: add_snapshot_def performTransaction_rejected)
  next
    case (Fulfilled h)
    with a assms m show ?thesis
      by (auto simp: add_snapshot_def performTransaction_fulfilled STORE_SAVED_STATES_def
            split: prod.splits sum.splits)
  qed
qed

lemma add_snapshot_parking_memo:
  fixes w :: "('v, 'p) world"
  assumes "add_snapshot STORE_SAVED_PARKING fault nm pl ts po w = (Fulfilled k, w1)"
  shows "\<exists>p h. dbPromise w1 = Some p \<and> promises w1 p = Fulfilled h"
proof -
  obtain q w0 where a: "await_getDB po w = (q, w0)" by (cases "await_getDB po w")
  from await_getDB_memo[OF a] obtain p where m: "dbPromise w0 = Some p" "promises w0 p = q" by auto
  show ?thesis
  proof (cases q)
    case Pending
    with a assms show ?thesis by (simp add: add_snapshot_def performTransaction_pending)
  next
    case (Rejected e)
    with a assms show ?thesis by (simp add: add_snapshot_def performTransaction_rejected)
  next
    case (Fulfilled h)
    with a assms m show ?thesis
      by (auto simp: add_snapshot_def performTransaction_fulfilled STORE_SAVED_PARKING_def
            split: prod.splits sum.splits)
  qed
qed

text \<open>Once the add has been fulfilled, the call is its eviction transaction.\<close>

lemma saveState_run:
  fixes w :: "('v, 'p) world"
  assumes "add_snapshot STORE_SAVED_STATES (add_fault ev) nm st (now ev) (open_ev ev) w = (Fulfilled k, w1)"
  shows "saveState ev st nm lim w =
     (case trim_transaction (case lim of None \<Rightarrow> 5 | Some l \<Rightarrow> l) (savedStates w1) of
        (p, tr, s) \<Rightarrow> (p, tr, w1\<lparr>savedStates := s\<rparr>))"
proof -
  from add_snapshot_states_memo[OF assms] obtain p h where
    m: "dbPromise w1 = Some p" "promises w1 p = Fulfilled h" by blast
  then have "await_getDB (open_ev ev) w1 = (Fulfilled h, w1)"
    using await_getDB_settled[of w1 p "open_ev ev"] by simp
  with assms show ?thesis by (simp add: saveState_unfold)
qed

lemma saveParking_run:
  fixes w :: "('v, 'p) world"
  assumes "add_snapshot STORE_SAVED_PARKING (add_fault ev) nm st (now ev) (open_ev ev) w = (Fulfilled k, w1)"
  shows "saveParking ev st nm lim w =
     (case trim_transaction (case lim of None \<Rightarrow> 20 | Some l \<Rightarrow> l) (savedParking w1) of
        (p, tr, s) \<Rightarrow> (p, tr, w1\<lparr>savedParking := s\<rparr>))"
proof -
  from add_snapshot_parking_memo[OF assms] obtain p h where
    m: "dbPromise w1 = Some p" "promises w1 p = Fulfilled h" by blast
  then have "await_getDB (open_ev ev) w1 = (Fulfilled h, w1)"
    using await_getDB_settled[of w1 p "open_ev ev"] by simp
  with assms show ?thesis by (simp add: saveParking_unfold)
qed



text \<open>
  The add is fulfilled exactly when the connection opens and the add request does not
  fail.
\<close>

lemma add_snapshot_fulfilled_iff:
  "fulfilled (fst (add_snapshot sn fault nm pl ts po w))
     = (fulfilled (fst (await_getDB po w)) \<and> fault = None)"
proof -
  obtain q w0 where a: "await_getDB po w = (q, w0)" by (cases "await_getDB po w")
  show ?thesis
  proof (cases q)
    case Pending
    with a show ?thesis by (simp add: add_snapshot_def performTransaction_pending fulfilled_def)
  next
    case (Rejected e)
    with a show ?thesis by (simp add: add_snapshot_def performTransaction_rejected fulfilled_def)
  next
    case (Fulfilled h)
    with a show ?thesis
      by (auto simp: add_snapshot_def performTransaction_fulfilled fulfilled_def snap_add_def
            split: option.splits)
  qed
qed





theorem eviction_by_rank_witness:
  "distinct (map rec_id (rows
     \<lparr>rows = [\<lparr>rec_id = 1, name = ''a'', payload = (), timestamp = 10\<rparr>,
              \<lparr>rec_id = 2, name = ''b'', payload = (), timestamp = 30\<rparr>,
              \<lparr>rec_id = 3, name = ''c'', payload = (), timestamp = 20\<rparr>], keygen = 4\<rparr>))
   \<and> trim_transaction 2
     \<lparr>rows = [\<lparr>rec_id = 1, name = ''a'', payload = (), timestamp = 10\<rparr>,
              \<lparr>rec_id = 2, name = ''b'', payload = (), timestamp = 30\<rparr>,
              \<lparr>rec_id = 3, name = ''c'', payload = (), timestamp = 20\<rparr>], keygen = 4\<rparr>
     = (Fulfilled (),
        [(CursorSuccess (Some \<lparr>rec_id = 2, name = ''b'', payload = (), timestamp = 30\<rparr>), Pending),
         (CursorSuccess (Some \<lparr>rec_id = 3, name = ''c'', payload = (), timestamp = 20\<rparr>), Pending),
         (CursorSuccess (Some \<lparr>rec_id = 1, name = ''a'', payload = (), timestamp = 10\<rparr>), Pending),
         (CursorSuccess None, Fulfilled ()), (TxComplete, Fulfilled ())],
        \<lparr>rows = [\<lparr>rec_id = 2, name = ''b'', payload = (), timestamp = 30\<rparr>,
                 \<lparr>rec_id = 3, name = ''c'', payload = (), timestamp = 20\<rparr>], keygen = 4\<rparr>)
   \<and> set (rows \<lparr>rows = [\<lparr>rec_id = 2, name = ''b'', payload = (), timestamp = 30\<rparr>,
                 \<lparr>rec_id = 3, name = ''c'', payload = (), timestamp = 20\<rparr>], keygen = 4\<rparr>)
       \<subseteq> set (rows \<lparr>rows = [\<lparr>rec_id = 1, name = ''a'', payload = (), timestamp = 10\<rparr>,
              \<lparr>rec_id = 2, name = ''b'', payload = (), timestamp = 30\<rparr>,
              \<lparr>rec_id = 3, name = ''c'', payload = (), timestamp = 20\<rparr>], keygen = 4\<rparr>)"
proof -
  let ?s = "\<lparr>rows = [\<lparr>rec_id = 1, name = ''a'', payload = (), timestamp = 10\<rparr>,
              \<lparr>rec_id = 2, name = ''b'', payload = (), timestamp = 30\<rparr>,
              \<lparr>rec_id = 3, name = ''c'', payload = (), timestamp = 20\<rparr>], keygen = 4\<rparr>"
  have d: "distinct (map rec_id (rows ?s))" by simp
  have t: "trim_transaction 2 ?s
     = (Fulfilled (),
        [(CursorSuccess (Some \<lparr>rec_id = 2, name = ''b'', payload = (), timestamp = 30\<rparr>), Pending),
         (CursorSuccess (Some \<lparr>rec_id = 3, name = ''c'', payload = (), timestamp = 20\<rparr>), Pending),
         (CursorSuccess (Some \<lparr>rec_id = 1, name = ''a'', payload = (), timestamp = 10\<rparr>), Pending),
         (CursorSuccess None, Fulfilled ()), (TxComplete, Fulfilled ())],
        \<lparr>rows = [\<lparr>rec_id = 2, name = ''b'', payload = (), timestamp = 30\<rparr>,
                 \<lparr>rec_id = 3, name = ''c'', payload = (), timestamp = 20\<rparr>], keygen = 4\<rparr>)"
    by code_simp
  from eviction_by_rank[OF d t] d t show ?thesis by blast
qed

text \<open>
  The claim C2 says that the call resolves only once the eviction transaction has
  completed. On the empty database, \<^verbatim>\<open>saveState\<close> with limit 0 adds one record and then
  evicts it: the returned promise is still pending after the event that visits the
  record, and it is fulfilled after the event that reports the exhausted cursor, one
  event before \<^verbatim>\<open>complete\<close>.
\<close>

theorem resolves_on_completion_counterexample:
  "fst (snd (saveState \<lparr>open_ev = OpenSuccess 1, now = 100, add_fault = None\<rparr> () ''a'' (Some 0)
       (initial_world :: (unit, unit) world)))
     = [(CursorSuccess (Some \<lparr>rec_id = 1, name = ''a'', payload = (), timestamp = 100\<rparr>), Pending),
        (CursorSuccess None, Fulfilled ()),
        (TxComplete, Fulfilled ())]
   \<and> resolved_before_complete
        (fst (snd (saveState \<lparr>open_ev = OpenSuccess 1, now = 100, add_fault = None\<rparr> () ''a'' (Some 0)
           (initial_world :: (unit, unit) world))))"
  by code_simp

text \<open>
  C2, amended. Whenever \<^verbatim>\<open>saveState\<close> or \<^verbatim>\<open>saveParking\<close> resolves, its promise is pending
  during every visit of the cursor, is fulfilled by the handler of the success event
  that reports the exhausted cursor, and the \<^verbatim>\<open>complete\<close> event of the transaction comes
  right after that event: the \<^verbatim>\<open>resolve\<close> in \<^verbatim>\<open>transaction.oncomplete\<close> finds the promise
  settled. On a store whose keys are distinct, the cursor has by then visited every
  record of the collection, the new one included, in descending order of the index,
  and the transaction that completes after the call has resolved leaves exactly the
  records whose rank is at most the limit.
\<close>

theorem resolves_at_cursor_end:
  fixes w :: "('v, 'p) world"
  shows "(saveState ev st nm lim w = (Fulfilled u, tr, w') \<longrightarrow>
            (\<exists>vis. tr = map (\<lambda>x. (CursorSuccess (Some x), Pending)) vis
                          @ [(CursorSuccess None, Fulfilled ()), (TxComplete, Fulfilled ())])
          \<and> resolved_before_complete tr
          \<and> (wf_store (savedStates w) \<longrightarrow>
               tr = map (\<lambda>x. (CursorSuccess (Some x), Pending))
                      (index_desc (rows (savedStates (snd (add_snapshot STORE_SAVED_STATES
                         (add_fault ev) nm st (now ev) (open_ev ev) w)))))
                    @ [(CursorSuccess None, Fulfilled ()), (TxComplete, Fulfilled ())]
             \<and> rows (savedStates w') =
                 filter (\<lambda>x. x \<notin> set (drop (nat (case lim of None \<Rightarrow> 5 | Some l \<Rightarrow> l))
                      (index_desc (rows (savedStates (snd (add_snapshot STORE_SAVED_STATES
                         (add_fault ev) nm st (now ev) (open_ev ev) w)))))))
                   (rows (savedStates (snd (add_snapshot STORE_SAVED_STATES
                         (add_fault ev) nm st (now ev) (open_ev ev) w))))))
       \<and> (saveParking ev st nm lim w = (Fulfilled u, tr, w') \<longrightarrow>
            (\<exists>vis. tr = map (\<lambda>x. (CursorSuccess (Some x), Pending)) vis
                          @ [(CursorSuccess None, Fulfilled ()), (TxComplete, Fulfilled ())])
          \<and> resolved_before_complete tr
          \<and> (wf_store (savedParking w) \<longrightarrow>
               tr = map (\<lambda>x. (CursorSuccess (Some x), Pending))
                      (index_desc (rows (savedParking (snd (add_snapshot STORE_SAVED_PARKING
                         (add_fault ev) nm st (now ev) (open_ev ev) w)))))
                    @ [(CursorSuccess None, Fulfilled ()), (TxComplete, Fulfilled ())]
             \<and> rows (savedParking w') =
                 filter (\<lambda>x. x \<notin> set (drop (nat (case lim of None \<Rightarrow> 20 | Some l \<Rightarrow> l))
                      (index_desc (rows (savedParking (snd (add_snapshot STORE_SAVED_PARKING
                         (add_fault ev) nm st (now ev) (open_ev ev) w)))))))
                   (rows (savedParking (snd (add_snapshot STORE_SAVED_PARKING
                         (add_fault ev) nm st (now ev) (open_ev ev) w))))))"
proof (intro conjI impI)
  assume f: "saveState ev st nm lim w = (Fulfilled u, tr, w')"
  from saveState_fulfilled[OF f] obtain limit s s' where
    "trim_transaction limit s = (Fulfilled u, tr, s')" by blast
  from trim_transaction_shape[OF this] obtain vis where
    v: "tr = map (\<lambda>x. (CursorSuccess (Some x), Pending)) vis
               @ [(CursorSuccess None, Fulfilled ()), (TxComplete, Fulfilled ())]" by blast
  then show "\<exists>vis. tr = map (\<lambda>x. (CursorSuccess (Some x), Pending)) vis
               @ [(CursorSuccess None, Fulfilled ()), (TxComplete, Fulfilled ())]" by blast
  from v show "resolved_before_complete tr" by (simp only: resolved_before_complete_shape)
  let ?a = "add_snapshot STORE_SAVED_STATES (add_fault ev) nm st (now ev) (open_ev ev) w"
  let ?limit = "case lim of None \<Rightarrow> 5 | Some l \<Rightarrow> l"
  assume wf: "wf_store (savedStates w)"
  from f obtain k where a: "?a = (Fulfilled k, snd ?a)"
    by (cases ?a) (auto simp: saveState_unfold split: settled.splits)
  from add_snapshot_states[OF a] have "snap_add (add_fault ev) nm st (now ev) (savedStates w)
      = (Inr k, savedStates (snd ?a))"
    by (cases "snap_add (add_fault ev) nm st (now ev) (savedStates w)") auto
  from snap_add_wf[OF wf this] have d: "distinct (map rec_id (rows (savedStates (snd ?a))))"
    by (simp add: wf_store_def)
  from f saveState_run[OF a, of lim] trim_transaction_eq[OF d, of ?limit]
  show "tr = map (\<lambda>x. (CursorSuccess (Some x), Pending)) (index_desc (rows (savedStates (snd ?a))))
             @ [(CursorSuccess None, Fulfilled ()), (TxComplete, Fulfilled ())]"
    and "rows (savedStates w') =
           filter (\<lambda>x. x \<notin> set (drop (nat ?limit) (index_desc (rows (savedStates (snd ?a))))))
             (rows (savedStates (snd ?a)))"
    by auto
next
  assume f: "saveParking ev st nm lim w = (Fulfilled u, tr, w')"
  from saveParking_fulfilled[OF f] obtain limit s s' where
    "trim_transaction limit s = (Fulfilled u, tr, s')" by blast
  from trim_transaction_shape[OF this] obtain vis where
    v: "tr = map (\<lambda>x. (CursorSuccess (Some x), Pending)) vis
               @ [(CursorSuccess None, Fulfilled ()), (TxComplete, Fulfilled ())]" by blast
  then show "\<exists>vis. tr = map (\<lambda>x. (CursorSuccess (Some x), Pending)) vis
               @ [(CursorSuccess None, Fulfilled ()), (TxComplete, Fulfilled ())]" by blast
  from v show "resolved_before_complete tr" by (simp only: resolved_before_complete_shape)
  let ?a = "add_snapshot STORE_SAVED_PARKING (add_fault ev) nm st (now ev) (open_ev ev) w"
  let ?limit = "case lim of None \<Rightarrow> 20 | Some l \<Rightarrow> l"
  assume wf: "wf_store (savedParking w)"
  from f obtain k where a: "?a = (Fulfilled k, snd ?a)"
    by (cases ?a) (auto simp: saveParking_unfold split: settled.splits)
  from add_snapshot_parking[OF a] have "snap_add (add_fault ev) nm st (now ev) (savedParking w)
      = (Inr k, savedParking (snd ?a))"
    by (cases "snap_add (add_fault ev) nm st (now ev) (savedParking w)") auto
  from snap_add_wf[OF wf this] have d: "distinct (map rec_id (rows (savedParking (snd ?a))))"
    by (simp add: wf_store_def)
  from f saveParking_run[OF a, of lim] trim_transaction_eq[OF d, of ?limit]
  show "tr = map (\<lambda>x. (CursorSuccess (Some x), Pending)) (index_desc (rows (savedParking (snd ?a))))
             @ [(CursorSuccess None, Fulfilled ()), (TxComplete, Fulfilled ())]"
    and "rows (savedParking w') =
           filter (\<lambda>x. x \<notin> set (drop (nat ?limit) (index_desc (rows (savedParking (snd ?a))))))
             (rows (savedParking (snd ?a)))"
    by auto
qed

theorem resolves_at_cursor_end_witness:
  "wf_store (savedParking ((initial_world :: (unit, unit) world)
      \<lparr>savedParking :=
         \<lparr>rows = [\<lparr>rec_id = 1, name = ''a'', payload = (), timestamp = 10\<rparr>,
                  \<lparr>rec_id = 2, name = ''b'', payload = (), timestamp = 30\<rparr>],
          keygen = 3\<rparr>\<rparr>))
   \<and> fst (saveParking \<lparr>open_ev = OpenSuccess 1, now = 20, add_fault = None\<rparr> () ''c'' (Some 1)
       ((initial_world :: (unit, unit) world)
          \<lparr>savedParking :=
             \<lparr>rows = [\<lparr>rec_id = 1, name = ''a'', payload = (), timestamp = 10\<rparr>,
                      \<lparr>rec_id = 2, name = ''b'', payload = (), timestamp = 30\<rparr>],
              keygen = 3\<rparr>\<rparr>)) = Fulfilled ()
   \<and> fst (snd (saveParking \<lparr>open_ev = OpenSuccess 1, now = 20, add_fault = None\<rparr> () ''c'' (Some 1)
       ((initial_world :: (unit, unit) world)
          \<lparr>savedParking :=
             \<lparr>rows = [\<lparr>rec_id = 1, name = ''a'', payload = (), timestamp = 10\<rparr>,
                      \<lparr>rec_id = 2, name = ''b'', payload = (), timestamp = 30\<rparr>],
              keygen = 3\<rparr>\<rparr>)))
     = [(CursorSuccess (Some \<lparr>rec_id = 2, name = ''b'', payload = (), timestamp = 30\<rparr>), Pending),
        (CursorSuccess (Some \<lparr>rec_id = 3, name = ''c'', payload = (), timestamp = 20\<rparr>), Pending),
        (CursorSuccess (Some \<lparr>rec_id = 1, name = ''a'', payload = (), timestamp = 10\<rparr>), Pending),
        (CursorSuccess None, Fulfilled ()),
        (TxComplete, Fulfilled ())]
   \<and> rows (savedParking (snd (snd (saveParking
         \<lparr>open_ev = OpenSuccess 1, now = 20, add_fault = None\<rparr> () ''c'' (Some 1)
         ((initial_world :: (unit, unit) world)
            \<lparr>savedParking :=
               \<lparr>rows = [\<lparr>rec_id = 1, name = ''a'', payload = (), timestamp = 10\<rparr>,
                        \<lparr>rec_id = 2, name = ''b'', payload = (), timestamp = 30\<rparr>],
                keygen = 3\<rparr>\<rparr>)))))
     = [\<lparr>rec_id = 2, name = ''b'', payload = (), timestamp = 30\<rparr>]
   \<and> resolved_before_complete
        (fst (snd (saveParking \<lparr>open_ev = OpenSuccess 1, now = 20, add_fault = None\<rparr> () ''c'' (Some 1)
         ((initial_world :: (unit, unit) world)
            \<lparr>savedParking :=
               \<lparr>rows = [\<lparr>rec_id = 1, name = ''a'', payload = (), timestamp = 10\<rparr>,
                        \<lparr>rec_id = 2, name = ''b'', payload = (), timestamp = 30\<rparr>],
                keygen = 3\<rparr>\<rparr>))))
   \<and> wf_store (savedStates (initial_world :: (unit, unit) world))
   \<and> fst (saveState \<lparr>open_ev = OpenSuccess 1, now = 20, add_fault = None\<rparr> () ''c'' None
       (initial_world :: (unit, unit) world)) = Fulfilled ()
   \<and> fst (snd (saveState \<lparr>open_ev = OpenSuccess 1, now = 20, add_fault = None\<rparr> () ''c'' None
       (initial_world :: (unit, unit) world)))
     = [(CursorSuccess (Some \<lparr>rec_id = 1, name = ''c'', payload = (), timestamp = 20\<rparr>), Pending),
        (CursorSuccess None, Fulfilled ()),
        (TxComplete, Fulfilled ())]
   \<and> rows (savedStates (snd (snd (saveState
         \<lparr>open_ev = OpenSuccess 1, now = 20, add_fault = None\<rparr> () ''c'' None
         (initial_world :: (unit, unit) world)))))
     = [\<lparr>rec_id = 1, name = ''c'', payload = (), timestamp = 20\<rparr>]
   \<and> resolved_before_complete
        (fst (snd (saveState \<lparr>open_ev = OpenSuccess 1, now = 20, add_fault = None\<rparr> () ''c'' None
           (initial_world :: (unit, unit) world))))"
proof -
  let ?w = "(initial_world :: (unit, unit) world)
      \<lparr>savedParking :=
         \<lparr>rows = [\<lparr>rec_id = 1, name = ''a'', payload = (), timestamp = 10\<rparr>,
                  \<lparr>rec_id = 2, name = ''b'', payload = (), timestamp = 30\<rparr>],
          keygen = 3\<rparr>\<rparr>"
  let ?ev = "\<lparr>open_ev = OpenSuccess 1, now = 20, add_fault = None\<rparr>"
  let ?r = "saveParking ?ev () ''c'' (Some 1) ?w"
  have 0: "wf_store (savedParking ?w)" by (simp add: wf_store_def)
  have 1: "fst ?r = Fulfilled ()" by code_simp
  have 2: "fst (snd ?r)
     = [(CursorSuccess (Some \<lparr>rec_id = 2, name = ''b'', payload = (), timestamp = 30\<rparr>), Pending),
        (CursorSuccess (Some \<lparr>rec_id = 3, name = ''c'', payload = (), timestamp = 20\<rparr>), Pending),
        (CursorSuccess (Some \<lparr>rec_id = 1, name = ''a'', payload = (), timestamp = 10\<rparr>), Pending),
        (CursorSuccess None, Fulfilled ()),
        (TxComplete, Fulfilled ())]" by code_simp
  have 3: "rows (savedParking (snd (snd ?r)))
     = [\<lparr>rec_id = 2, name = ''b'', payload = (), timestamp = 30\<rparr>]" by code_simp
  from 1 have e: "?r = (Fulfilled (), fst (snd ?r), snd (snd ?r))"
    by (metis prod.collapse)
  from e have "resolved_before_complete (fst (snd ?r))"
    using resolves_at_cursor_end[where ev="?ev" and st="()" and nm="''c''" and lim="Some 1"
        and w="?w" and u="()" and tr="fst (snd ?r)" and w'="snd (snd ?r)"]
    by blast
  then have 4: "resolved_before_complete (fst (snd ?r))" .
  let ?i = "initial_world :: (unit, unit) world"
  let ?q = "saveState ?ev () ''c'' None ?i"
  have 5: "wf_store (savedStates ?i)"
    by (simp add: wf_store_def initial_world_def empty_snapstore_def)
  have 6: "fst ?q = Fulfilled ()" by code_simp
  have 7: "fst (snd ?q)
     = [(CursorSuccess (Some \<lparr>rec_id = 1, name = ''c'', payload = (), timestamp = 20\<rparr>), Pending),
        (CursorSuccess None, Fulfilled ()),
        (TxComplete, Fulfilled ())]" by code_simp
  have 8: "rows (savedStates (snd (snd ?q)))
     = [\<lparr>rec_id = 1, name = ''c'', payload = (), timestamp = 20\<rparr>]" by code_simp
  from 6 have e': "?q = (Fulfilled (), fst (snd ?q), snd (snd ?q))"
    by (metis prod.collapse)
  from e' have 9: "resolved_before_complete (fst (snd ?q))"
    using resolves_at_cursor_end[where ev="?ev" and st="()" and nm="''c''" and lim=None
        and w="?i" and u="()" and tr="fst (snd ?q)" and w'="snd (snd ?q)"]
    by blast
  from 0 1 2 3 4 5 6 7 8 9 show ?thesis by blast
qed

text \<open>
  C7. If the add of the new record fails (its promise rejects with \<open>e\<close>, because the
  connection cannot be opened or because the add request fails), then \<^verbatim>\<open>saveState\<close>
  rejects with \<open>e\<close>, no event of an eviction transaction is dispatched, and the
  collection is what it was before the call. Likewise for \<^verbatim>\<open>saveParking\<close>.
\<close>

theorem failed_add_no_eviction:
  fixes w :: "('v, 'p) world"
  shows "(fst (add_snapshot STORE_SAVED_STATES (add_fault ev) nm st (now ev) (open_ev ev) w) = Rejected e \<longrightarrow>
            fst (saveState ev st nm lim w) = Rejected e
          \<and> fst (snd (saveState ev st nm lim w)) = []
          \<and> savedStates (snd (snd (saveState ev st nm lim w))) = savedStates w)
       \<and> (fst (add_snapshot STORE_SAVED_PARKING (add_fault ev) nm st (now ev) (open_ev ev) w) = Rejected e \<longrightarrow>
            fst (saveParking ev st nm lim w) = Rejected e
          \<and> fst (snd (saveParking ev st nm lim w)) = []
          \<and> savedParking (snd (snd (saveParking ev st nm lim w))) = savedParking w)"
proof (intro conjI impI)
  assume a: "fst (add_snapshot STORE_SAVED_STATES (add_fault ev) nm st (now ev) (open_ev ev) w) = Rejected e"
  obtain w1 where r: "add_snapshot STORE_SAVED_STATES (add_fault ev) nm st (now ev) (open_ev ev) w = (Rejected e, w1)"
    using a by (metis prod.collapse)
  from add_snapshot_states[OF r] have u: "savedStates w1 = savedStates w" by auto
  from r have s: "saveState ev st nm lim w = (Rejected e, [], w1)" by (simp add: saveState_unfold)
  from s show "fst (saveState ev st nm lim w) = Rejected e" by simp
  from s show "fst (snd (saveState ev st nm lim w)) = []" by simp
  from s u show "savedStates (snd (snd (saveState ev st nm lim w))) = savedStates w" by simp
next
  assume a: "fst (add_snapshot STORE_SAVED_PARKING (add_fault ev) nm st (now ev) (open_ev ev) w) = Rejected e"
  obtain w1 where r: "add_snapshot STORE_SAVED_PARKING (add_fault ev) nm st (now ev) (open_ev ev) w = (Rejected e, w1)"
    using a by (metis prod.collapse)
  from add_snapshot_parking[OF r] have u: "savedParking w1 = savedParking w" by auto
  from r have s: "saveParking ev st nm lim w = (Rejected e, [], w1)" by (simp add: saveParking_unfold)
  from s show "fst (saveParking ev st nm lim w) = Rejected e" by simp
  from s show "fst (snd (saveParking ev st nm lim w)) = []" by simp
  from s u show "savedParking (snd (snd (saveParking ev st nm lim w))) = savedParking w" by simp
qed

theorem failed_add_no_eviction_witness:
  "fst (add_snapshot STORE_SAVED_STATES (Some (StorageError ''QuotaExceededError'')) ''x'' () 300
         (OpenSuccess 1)
         ((initial_world :: (unit, unit) world)
            \<lparr>savedStates :=
               \<lparr>rows = [\<lparr>rec_id = 1, name = ''a'', payload = (), timestamp = 100\<rparr>,
                        \<lparr>rec_id = 2, name = ''b'', payload = (), timestamp = 200\<rparr>],
                keygen = 3\<rparr>\<rparr>))
     = Rejected (StorageError ''QuotaExceededError'')
   \<and> fst (saveState
         \<lparr>open_ev = OpenSuccess 1, now = 300, add_fault = Some (StorageError ''QuotaExceededError'')\<rparr>
         () ''x'' (Some 0)
         ((initial_world :: (unit, unit) world)
            \<lparr>savedStates :=
               \<lparr>rows = [\<lparr>rec_id = 1, name = ''a'', payload = (), timestamp = 100\<rparr>,
                        \<lparr>rec_id = 2, name = ''b'', payload = (), timestamp = 200\<rparr>],
                keygen = 3\<rparr>\<rparr>))
     = Rejected (StorageError ''QuotaExceededError'')
   \<and> rows (savedStates (snd (snd (saveState
         \<lparr>open_ev = OpenSuccess 1, now = 300, add_fault = Some (StorageError ''QuotaExceededError'')\<rparr>
         () ''x'' (Some 0)
         ((initial_world :: (unit, unit) world)
            \<lparr>savedStates :=
               \<lparr>rows = [\<lparr>rec_id = 1, name = ''a'', payload = (), timestamp = 100\<rparr>,
                        \<lparr>rec_id = 2, name = ''b'', payload = (), timestamp = 200\<rparr>],
                keygen = 3\<rparr>\<rparr>)))))
     = [\<lparr>rec_id = 1, name = ''a'', payload = (), timestamp = 100\<rparr>,
        \<lparr>rec_id = 2, name = ''b'', payload = (), timestamp = 200\<rparr>]"
proof -
  let ?w = "(initial_world :: (unit, unit) world)
            \<lparr>savedStates :=
               \<lparr>rows = [\<lparr>rec_id = 1, name = ''a'', payload = (), timestamp = 100\<rparr>,
                        \<lparr>rec_id = 2, name = ''b'', payload = (), timestamp = 200\<rparr>],
                keygen = 3\<rparr>\<rparr>"
  let ?ev = "\<lparr>open_ev = OpenSuccess 1, now = 300, add_fault = Some (StorageError ''QuotaExceededError'')\<rparr>"
  have a: "fst (add_snapshot STORE_SAVED_STATES (add_fault ?ev) ''x'' () (now ?ev) (open_ev ?ev) ?w)
             = Rejected (StorageError ''QuotaExceededError'')"
    by code_simp
  from failed_add_no_eviction[of ?ev "''x''" "()" ?w "StorageError ''QuotaExceededError''" "Some 0"] a
  have "fst (saveState ?ev () ''x'' (Some 0) ?w) = Rejected (StorageError ''QuotaExceededError'')"
    "savedStates (snd (snd (saveState ?ev () ''x'' (Some 0) ?w))) = savedStates ?w"
    by blast+
  with a show ?thesis by simp
qed

section \<open>Properties of the sorted views\<close>









section \<open>Properties of \<^verbatim>\<open>bulkAdd\<close>\<close>

lemma bulk_requests_aborted:
  "aborted t \<Longrightarrow> outer t = Rejected e \<Longrightarrow>
     aborted (bulk_requests kp throws xs t) \<and> outer (bulk_requests kp throws xs t) = Rejected e
     \<and> working (bulk_requests kp throws xs t) = working t"
proof (induction xs arbitrary: t)
  case Nil
  then show ?case by simp
next
  case (Cons x xs)
  show ?case
  proof (cases "throws x")
    case (Some e')
    let ?t1 = "t\<lparr>inner := inner t @ [reject e' Pending]\<rparr>"
    from Some have s: "bulk_requests kp throws (x # xs) t = bulk_requests kp throws xs ?t1"
      by simp
    have "aborted ?t1" "outer ?t1 = Rejected e" using Cons.prems by simp_all
    from Cons.IH[OF this] show ?thesis unfolding s by simp
  next
    case None
    let ?t1 = "t\<lparr>inner := inner t @ [Rejected AbortError], outer := Rejected e\<rparr>"
    from None Cons.prems have s: "bulk_requests kp throws (x # xs) t = bulk_requests kp throws xs ?t1"
      by (simp add: bulk_request_onerror_def bulk_transaction_onerror_def reject_def)
    have "aborted ?t1" "outer ?t1 = Rejected e" using Cons.prems by simp_all
    from Cons.IH[OF this] show ?thesis unfolding s by simp
  qed
qed

lemma bulk_requests_fail:
  "\<not> aborted t \<Longrightarrow> outer t = Pending \<Longrightarrow> list_all (\<lambda>x. throws x = None) xs \<Longrightarrow>
   some_add_fails kp xs (working t) \<Longrightarrow>
     aborted (bulk_requests kp throws xs t)
     \<and> outer (bulk_requests kp throws xs t) = Rejected ConstraintError"
proof (induction xs arbitrary: t)
  case Nil
  then show ?case by simp
next
  case (Cons x xs)
  from Cons.prems(3) have nt: "throws x = None" "list_all (\<lambda>x. throws x = None) xs" by simp_all
  show ?case
  proof (cases "kp x \<in> kp ` set (working t)")
    case True
    let ?t1 = "t\<lparr>inner := inner t @ [Rejected ConstraintError],
                  outer := Rejected ConstraintError, aborted := True\<rparr>"
    from True nt Cons.prems(1,2)
    have s: "bulk_requests kp throws (x # xs) t = bulk_requests kp throws xs ?t1"
      by (simp add: store_add_def bulk_request_onerror_def bulk_transaction_onerror_def reject_def)
    have "aborted ?t1" "outer ?t1 = Rejected ConstraintError" by simp_all
    from bulk_requests_aborted[OF this, of kp throws xs] show ?thesis unfolding s by simp
  next
    case False
    let ?t1 = "t\<lparr>working := insort_key kp x (working t), inner := inner t @ [Fulfilled ()]\<rparr>"
    from False nt Cons.prems(1)
    have s: "bulk_requests kp throws (x # xs) t = bulk_requests kp throws xs ?t1"
      by (simp add: store_add_def bulk_request_onsuccess_def resolve_def)
    from False Cons.prems(4) have f: "some_add_fails kp xs (working ?t1)"
      by (simp add: store_add_def)
    have "\<not> aborted ?t1" "outer ?t1 = Pending" using Cons.prems by simp_all
    from Cons.IH[OF this nt(2) f] show ?thesis unfolding s .
  qed
qed

lemma bulk_requests_ok:
  "\<not> aborted t \<Longrightarrow> list_all (\<lambda>x. throws x = None) xs \<Longrightarrow>
   \<not> some_add_fails kp xs (working t) \<Longrightarrow>
     \<not> aborted (bulk_requests kp throws xs t) \<and> outer (bulk_requests kp throws xs t) = outer t
     \<and> set (working (bulk_requests kp throws xs t)) = set (working t) \<union> set xs
     \<and> inner (bulk_requests kp throws xs t) = inner t @ replicate (length xs) (Fulfilled ())"
proof (induction xs arbitrary: t)
  case Nil
  then show ?case by simp
next
  case (Cons x xs)
  from Cons.prems(2) have nt: "throws x = None" "list_all (\<lambda>x. throws x = None) xs" by simp_all
  from Cons.prems(3) have nk: "kp x \<notin> kp ` set (working t)"
    by (auto simp: store_add_def split: if_splits)
  let ?t1 = "t\<lparr>working := insort_key kp x (working t), inner := inner t @ [Fulfilled ()]\<rparr>"
  from nk nt Cons.prems(1)
  have s: "bulk_requests kp throws (x # xs) t = bulk_requests kp throws xs ?t1"
    by (simp add: store_add_def bulk_request_onsuccess_def resolve_def)
  from nk Cons.prems(3) have f: "\<not> some_add_fails kp xs (working ?t1)"
    by (simp add: store_add_def)
  have "\<not> aborted ?t1" using Cons.prems by simp
  from Cons.IH[OF this nt(2) f] show ?case unfolding s
    by (simp add: set_insort_key replicate_app_Cons_same)
qed

lemma promise_all_fulfilled: "promise_all (replicate n (Fulfilled ())) = Fulfilled ()"
  by (induction n) simp_all

lemma promise_all_no_throw:
  "list_all (\<lambda>x. throws x = None) xs \<Longrightarrow>
     promise_all (map_promises throws xs) = (if xs = [] then Fulfilled () else Pending)"
  by (induction xs) (auto simp: map_promises_def)

lemma some_add_fails_iff:
  "some_add_fails kp xs rs \<longleftrightarrow> \<not> (distinct (map kp xs) \<and> kp ` set xs \<inter> kp ` set rs = {})"
proof (induction xs arbitrary: rs)
  case Nil
  show ?case by simp
next
  case (Cons x xs)
  show ?case
  proof (cases "kp x \<in> kp ` set rs")
    case True
    then show ?thesis by (auto simp: store_add_def)
  next
    case False
    then have "some_add_fails kp (x # xs) rs = some_add_fails kp xs (insort_key kp x rs)"
      by (simp add: store_add_def)
    also have "\<dots> = (\<not> (distinct (map kp xs) \<and> kp ` set xs \<inter> kp ` set (insort_key kp x rs) = {}))"
      by (rule Cons.IH)
    also have "\<dots> = (\<not> (distinct (map kp (x # xs)) \<and> kp ` set (x # xs) \<inter> kp ` set rs = {}))"
      using False by (auto simp: set_insort_key)
    finally show ?thesis .
  qed
qed

lemma bulkAdd_fail:
  assumes "await_getDB po w = (Fulfilled h, w1)" "list_all (\<lambda>x. throws x = None) items"
    "some_add_fails kp items (fst sn w1)"
  shows "bulkAdd sn kp throws items po w = (Rejected ConstraintError, w1)"
proof -
  from assms(3) have ne: "items \<noteq> []" by auto
  have p0: "settle_all (map_promises throws items) Pending = Pending"
    by (simp add: settle_all_def promise_all_no_throw[OF assms(2)] ne)
  let ?t0 = "\<lparr>working = fst sn w1, inner = [], outer = Pending, aborted = False\<rparr>"
  have "\<not> aborted ?t0" "outer ?t0 = Pending" "some_add_fails kp items (working ?t0)"
    using assms(3) by simp_all
  from bulk_requests_fail[OF this(1,2) assms(2) this(3)]
  have t: "aborted (bulk_requests kp throws items ?t0)"
    "outer (bulk_requests kp throws items ?t0) = Rejected ConstraintError" by simp_all
  have "settle_all ps (Rejected ConstraintError) = Rejected ConstraintError" for ps
    by (simp add: settle_all_def resolve_def reject_def split: settled.splits)
  then show ?thesis
    by (simp add: bulkAdd_def assms(1) Let_def p0 t)
qed

lemma bulkAdd_ok:
  assumes "await_getDB po w = (Fulfilled h, w1)" "list_all (\<lambda>x. throws x = None) items"
    "\<not> some_add_fails kp items (fst sn w1)"
  shows "\<exists>rs. bulkAdd sn kp throws items po w = (Fulfilled (), snd sn rs w1)
              \<and> set rs = set (fst sn w1) \<union> set items"
proof -
  let ?p0 = "settle_all (map_promises throws items) Pending"
  let ?t0 = "\<lparr>working = fst sn w1, inner = [], outer = ?p0, aborted = False\<rparr>"
  have p0: "?p0 = Pending \<or> ?p0 = Fulfilled ()"
    by (simp add: settle_all_def promise_all_no_throw[OF assms(2)] resolve_def)
  have "\<not> aborted ?t0" "\<not> some_add_fails kp items (working ?t0)"
    using assms(3) by simp_all
  from bulk_requests_ok[OF this(1) assms(2) this(2)]
  have t: "\<not> aborted (bulk_requests kp throws items ?t0)"
    "outer (bulk_requests kp throws items ?t0) = ?p0"
    "set (working (bulk_requests kp throws items ?t0)) = set (fst sn w1) \<union> set items"
    "inner (bulk_requests kp throws items ?t0) = replicate (length items) (Fulfilled ())"
    by simp_all
  have "settle_all (inner (bulk_requests kp throws items ?t0))
          (outer (bulk_requests kp throws items ?t0))
        = settle_all (replicate (length items) (Fulfilled ())) ?p0"
    by (simp only: t)
  also have "\<dots> = resolve () ?p0"
    by (simp only: settle_all_def promise_all_fulfilled settled.case)
  also have "\<dots> = Fulfilled ()"
    using p0 by (auto simp: resolve_def)
  finally have "settle_all (inner (bulk_requests kp throws items ?t0))
          (outer (bulk_requests kp throws items ?t0)) = Fulfilled ()" .
  then have "bulkAdd sn kp throws items po w
      = (Fulfilled (), snd sn (working (bulk_requests kp throws items ?t0)) w1)"
    using t(1) by (simp add: bulkAdd_def assms(1) Let_def resolve_def bulk_transaction_oncomplete_def)
  with t(3) show ?thesis by blast
qed

lemma bulkAdd_no_connection:
  assumes "await_getDB po w = (Rejected e, w1)"
  shows "bulkAdd sn kp throws items po w = (Rejected e, w1)"
  using assms by (simp add: bulkAdd_def)

lemma bulkAdd_rollback:
  fixes w :: "('v, 'p) world"
  assumes "some_add_fails kp items (fst sn w)" "list_all (\<lambda>x. throws x = None) items"
    "fst (await_getDB po w) \<noteq> Pending"
    "\<And>q w1. await_getDB po w = (q, w1) \<Longrightarrow> fst sn w1 = fst sn w"
  shows "(\<exists>e. fst (bulkAdd sn kp throws items po w) = Rejected e)
       \<and> fst sn (snd (bulkAdd sn kp throws items po w)) = fst sn w"
proof -
  obtain q w1 where a: "await_getDB po w = (q, w1)" by (cases "await_getDB po w")
  note u = assms(4)[OF a]
  show ?thesis
  proof (cases q)
    case Pending
    with a assms(3) show ?thesis by simp
  next
    case (Rejected e)
    with a have "await_getDB po w = (Rejected e, w1)" by simp
    from bulkAdd_no_connection[OF this, of sn kp throws items] u show ?thesis by simp
  next
    case (Fulfilled h)
    with a have "await_getDB po w = (Fulfilled h, w1)" by simp
    from bulkAdd_fail[OF this assms(2), of kp sn] assms(1) u show ?thesis by simp
  qed
qed

text \<open>
  When no \<^verbatim>\<open>store.add\<close> throws, \<^verbatim>\<open>bulkAdd\<close> is all-or-nothing: if one of the add requests
  of the list fails (the key of an item is already in the store, or an earlier item
  of the list has the same key) and the connection is settled, then \<^verbatim>\<open>bulkAddFamilies\<close>
  rejects and the collection is what it was before the call. Likewise for
  \<^verbatim>\<open>bulkAddCars\<close>.
\<close>

lemma bulkAdd_request_failure_rolls_back:
  fixes w :: "('v, 'p) world"
  shows "(some_add_fails familyName fs (families w) \<and> list_all (\<lambda>x. throws x = None) fs
            \<and> fst (await_getDB po w) \<noteq> Pending \<longrightarrow>
            (\<exists>e. fst (bulkAddFamilies throws fs po w) = Rejected e)
          \<and> families (snd (bulkAddFamilies throws fs po w)) = families w)
       \<and> (some_add_fails car_id cs (cars w) \<and> list_all (\<lambda>x. throws' x = None) cs
            \<and> fst (await_getDB po w) \<noteq> Pending \<longrightarrow>
            (\<exists>e. fst (bulkAddCars throws' cs po w) = Rejected e)
          \<and> cars (snd (bulkAddCars throws' cs po w)) = cars w)"
proof (intro conjI impI)
  assume h: "some_add_fails familyName fs (families w) \<and> list_all (\<lambda>x. throws x = None) fs
            \<and> fst (await_getDB po w) \<noteq> Pending"
  have "(\<exists>e. fst (bulkAdd STORE_FAMILIES familyName throws fs po w) = Rejected e)
       \<and> fst STORE_FAMILIES (snd (bulkAdd STORE_FAMILIES familyName throws fs po w)) = fst STORE_FAMILIES w"
    by (rule bulkAdd_rollback) (use h in \<open>auto simp: STORE_FAMILIES_def dest: await_getDB_stores\<close>)
  then have r: "\<exists>e. fst (bulkAddFamilies throws fs po w) = Rejected e"
    "families (snd (bulkAddFamilies throws fs po w)) = families w"
    by (simp_all add: bulkAddFamilies_def STORE_FAMILIES_def)
  from r show "\<exists>e. fst (bulkAddFamilies throws fs po w) = Rejected e" by simp
  from r show "families (snd (bulkAddFamilies throws fs po w)) = families w" by simp
next
  assume h: "some_add_fails car_id cs (cars w) \<and> list_all (\<lambda>x. throws' x = None) cs
            \<and> fst (await_getDB po w) \<noteq> Pending"
  have "(\<exists>e. fst (bulkAdd STORE_CARS car_id throws' cs po w) = Rejected e)
       \<and> fst STORE_CARS (snd (bulkAdd STORE_CARS car_id throws' cs po w)) = fst STORE_CARS w"
    by (rule bulkAdd_rollback) (use h in \<open>auto simp: STORE_CARS_def dest: await_getDB_stores\<close>)
  then have r: "\<exists>e. fst (bulkAddCars throws' cs po w) = Rejected e"
    "cars (snd (bulkAddCars throws' cs po w)) = cars w"
    by (simp_all add: bulkAddCars_def STORE_CARS_def)
  from r show "\<exists>e. fst (bulkAddCars throws' cs po w) = Rejected e" by simp
  from r show "cars (snd (bulkAddCars throws' cs po w)) = cars w" by simp
qed

text \<open>
  C4. The claim says that \<^verbatim>\<open>bulkAdd\<close> is all-or-nothing whenever an individual add of the
  list fails. The store holds the family \<^verbatim>\<open>z\<close>; the list holds the families \<^verbatim>\<open>a\<close>, \<^verbatim>\<open>b\<close>
  and \<^verbatim>\<open>c\<close>, each with its key, and \<^verbatim>\<open>store.add\<close> throws a \<^verbatim>\<open>DataCloneError\<close> for \<^verbatim>\<open>b\<close>. The
  add of \<^verbatim>\<open>b\<close> fails and the call rejects with that error, but the transaction is not
  aborted: \<^verbatim>\<open>a\<close> and \<^verbatim>\<open>c\<close> are in the collection afterwards.
\<close>

theorem bulkAdd_sync_throw_commits:
  "fst (bulkAddFamilies
          (\<lambda>x. if familyName x = ''b'' then Some DataCloneError else None)
          [\<lparr>familyName = ''a'', family_data = ()\<rparr>, \<lparr>familyName = ''b'', family_data = ()\<rparr>,
           \<lparr>familyName = ''c'', family_data = ()\<rparr>]
          (OpenSuccess 1)
          ((initial_world :: (unit, unit) world)
             \<lparr>families := [\<lparr>familyName = ''z'', family_data = ()\<rparr>]\<rparr>))
     = Rejected DataCloneError
   \<and> families (snd (bulkAddFamilies
          (\<lambda>x. if familyName x = ''b'' then Some DataCloneError else None)
          [\<lparr>familyName = ''a'', family_data = ()\<rparr>, \<lparr>familyName = ''b'', family_data = ()\<rparr>,
           \<lparr>familyName = ''c'', family_data = ()\<rparr>]
          (OpenSuccess 1)
          ((initial_world :: (unit, unit) world)
             \<lparr>families := [\<lparr>familyName = ''z'', family_data = ()\<rparr>]\<rparr>)))
     = [\<lparr>familyName = ''a'', family_data = ()\<rparr>, \<lparr>familyName = ''c'', family_data = ()\<rparr>,
        \<lparr>familyName = ''z'', family_data = ()\<rparr>]"
  by code_simp

section \<open>A failed open\<close>

lemma await_getDB_rejected:
  assumes "dbPromise w = Some p" "promises w p = Rejected e"
  shows "await_getDB po w = (Rejected e, w)"
  using await_getDB_settled[OF assms(1), of po] assms(2) by simp

lemma open_failure_rejects:
  assumes "promises w p = Pending"
  shows "promises (deliver p (OpenError m) w) p = Rejected (OpenFailed m)"
    and "promises (deliver p OpenBlockedEvent w) p = Rejected OpenBlocked"
  using assms by (simp_all add: deliver_def open_handler_def reject_def)

text \<open>
  C10. Once the memoized promise is rejected with \<open>e\<close>, it stays rejected whatever event
  the platform fires at the open request afterwards; \<^verbatim>\<open>getDB\<close> returns it without a new
  \<^verbatim>\<open>indexedDB.open\<close>; every operation built on \<^verbatim>\<open>performTransaction\<close>, \<^verbatim>\<open>bulkAdd\<close>,
  \<^verbatim>\<open>saveState\<close>, \<^verbatim>\<open>saveParking\<close> and the two sorted views reject with \<open>e\<close> and leave the
  state as it is. \<^verbatim>\<open>clearDatabase\<close> sets \<^verbatim>\<open>dbPromise\<close> to \<^verbatim>\<open>null\<close>, and the next \<^verbatim>\<open>getDB\<close> issues
  a new open with a pending promise.
\<close>

theorem failed_open_memoized:
  fixes w :: "('v, 'p) world"
  assumes "dbPromise w = Some p" "promises w p = Rejected e"
  shows "getDB w = (p, w)
       \<and> (\<forall>ev'. promises (deliver p ev' w) p = Rejected e)
       \<and> performTransaction sn md act po w = (Rejected e, w)
       \<and> bulkAdd sn' kp throws items po w = (Rejected e, w)
       \<and> saveState ev st nm lim w = (Rejected e, [], w)
       \<and> saveParking ev st nm lim w = (Rejected e, [], w)
       \<and> getAllSavedStates po w = (Rejected e, w)
       \<and> getAllSavedParking po w = (Rejected e, w)
       \<and> dbPromise (snd (clearDatabase po de w)) = None
       \<and> opens (snd (getDB (snd (clearDatabase po de w)))) = opens w + 1
       \<and> promises (snd (getDB (snd (clearDatabase po de w))))
            (fst (getDB (snd (clearDatabase po de w)))) = Pending"
proof -
  have a: "await_getDB q w = (Rejected e, w)" for q
    by (rule await_getDB_rejected[OF assms])
  have pt: "performTransaction s m c q w = (Rejected e, w)" for s :: "(('v, 'p) world, 's) store_name"
    and m and c :: "'s \<Rightarrow> (error + 'r) \<times> 's" and q
    by (rule performTransaction_rejected[OF a])
  have 1: "getDB w = (p, w)" by (rule getDB_memo[OF assms(1)])
  have 2: "\<forall>ev'. promises (deliver p ev' w) p = Rejected e"
    using assms(2) by (simp add: deliver_def open_handler_def resolve_def reject_def split: open_event.splits)
  have 4: "bulkAdd sn' kp throws items po w = (Rejected e, w)" by (rule bulkAdd_no_connection[OF a])
  have 5: "saveState ev st nm lim w = (Rejected e, [], w)"
    by (simp add: saveState_unfold add_snapshot_def pt)
  have 6: "saveParking ev st nm lim w = (Rejected e, [], w)"
    by (simp add: saveParking_unfold add_snapshot_def pt)
  have 7: "getAllSavedStates po w = (Rejected e, w)" by (simp add: getAllSavedStates_def pt)
  have 8: "getAllSavedParking po w = (Rejected e, w)" by (simp add: getAllSavedParking_def pt)
  have 9: "dbPromise (snd (clearDatabase po de w)) = None"
    using assms by (simp add: clearDatabase_def split: delete_event.splits)
  have 10: "opens (snd (clearDatabase po de w)) = opens w"
    using assms by (simp add: clearDatabase_def split: delete_event.splits)
  from 9 10 have 11: "opens (snd (getDB (snd (clearDatabase po de w)))) = opens w + 1"
    "promises (snd (getDB (snd (clearDatabase po de w)))) (fst (getDB (snd (clearDatabase po de w)))) = Pending"
    by (simp_all add: getDB_def Let_def)
  from 1 2 pt 4 5 6 7 8 9 11 show ?thesis by blast
qed

section \<open>Properties of the offline cache controller\<close>

lemma install_unfold:
  "install base net open_fault store_fault cs =
     (case open_fault of
        Some e \<Rightarrow> (Installed, cs, [e])
      | None \<Rightarrow>
          (if list_all (fetch_ok net) (map (resolve_url base) urlsToCache)
           then (case store_fault of
                   Some e \<Rightarrow> (Installed, snd (caches_open CACHE_NAME None cs), [e])
                 | None \<Rightarrow>
                     (Installed,
                      snd (cache_addAll base net None urlsToCache CACHE_NAME
                             (snd (caches_open CACHE_NAME None cs))), []))
           else (Installed, snd (caches_open CACHE_NAME None cs), [TypeError])))"
  by (simp add: install_def caches_open_def cache_addAll_def promise_catch_def waitUntil_def
        Let_def split: option.splits)

text \<open>
  C3, amended. The install step always completes successfully: the promise given to
  \<^verbatim>\<open>event.waitUntil\<close> never rejects, because the \<^verbatim>\<open>catch\<close> handler logs the error and returns.
  When fetching a manifest entry fails (no answer, or a status that is not ok, or 206),
  or when storing the responses fails, \<^verbatim>\<open>addAll\<close> stores nothing, so the bucket keeps the
  contents it had (none for a new version), and the error is logged; when \<^verbatim>\<open>caches.open\<close>
  fails, the cache storage is unchanged and the error is logged.
\<close>

theorem install_swallows_failure:
  "fst (install base net open_fault store_fault cs) = Installed
   \<and> (open_fault = None \<and> \<not> list_all (fetch_ok net) (map (resolve_url base) urlsToCache) \<longrightarrow>
        fst (snd (install base net open_fault store_fault cs)) = snd (caches_open CACHE_NAME None cs)
      \<and> bucket CACHE_NAME (fst (snd (install base net open_fault store_fault cs)))
          = bucket CACHE_NAME cs
      \<and> snd (snd (install base net open_fault store_fault cs)) = [TypeError])
   \<and> (open_fault = None \<and> list_all (fetch_ok net) (map (resolve_url base) urlsToCache)
        \<and> store_fault = Some e \<longrightarrow>
        fst (snd (install base net open_fault store_fault cs)) = snd (caches_open CACHE_NAME None cs)
      \<and> bucket CACHE_NAME (fst (snd (install base net open_fault store_fault cs)))
          = bucket CACHE_NAME cs
      \<and> snd (snd (install base net open_fault store_fault cs)) = [e])
   \<and> (open_fault = Some e \<longrightarrow>
        fst (snd (install base net open_fault store_fault cs)) = cs
      \<and> snd (snd (install base net open_fault store_fault cs)) = [e])"
proof -
  have b: "bucket CACHE_NAME (snd (caches_open CACHE_NAME None cs)) = bucket CACHE_NAME cs"
    by (auto simp: caches_open_def bucket_def map_of_eq_None_iff[symmetric] split: option.splits)
  show ?thesis
    by (simp add: install_unfold b split: option.splits)
qed

text \<open>
  The claim C3 says that the install step fails when a manifest entry cannot be
  fetched. With a network that fails for \<^verbatim>\<open>db.js\<close> and an empty cache storage, the install
  step succeeds with an empty bucket.
\<close>

theorem install_all_or_nothing_counterexample:
  "\<not> fetch_ok (\<lambda>u. if u = ''https://app.example/db.js'' then None
                    else Some \<lparr>status = 200, rtype = Basic, body = ''ok''\<rparr>)
        (resolve_url ''https://app.example/'' ''./db.js'')
   \<and> ''./db.js'' \<in> set urlsToCache
   \<and> install ''https://app.example/''
        (\<lambda>u. if u = ''https://app.example/db.js'' then None
              else Some \<lparr>status = 200, rtype = Basic, body = ''ok''\<rparr>)
        None None []
     = (Installed, [(CACHE_NAME, [])], [TypeError])"
  by code_simp

text \<open>
  With every entry answered by status 200 and no failure of the platform, the install
  step stores the nine responses under the resolved URLs and logs nothing.
\<close>

lemma install_primes_example:
  "fst (install ''https://app.example/'' (\<lambda>u. Some \<lparr>status = 200, rtype = Basic, body = u\<rparr>)
          None None []) = Installed
   \<and> map fst (bucket CACHE_NAME (fst (snd (install ''https://app.example/''
          (\<lambda>u. Some \<lparr>status = 200, rtype = Basic, body = u\<rparr>) None None []))))
     = rev [''https://app.example/'', ''https://app.example/index.html'',
            ''https://app.example/master.html'', ''https://app.example/manual.html'',
            ''https://app.example/db.js'', ''https://app.example/manifest.json'',
            ''https://app.example/icons/icon-192x192.png'',
            ''https://app.example/icons/icon-512x512.png'',
            ''https://cdn.tailwindcss.com/'']
   \<and> snd (snd (install ''https://app.example/''
          (\<lambda>u. Some \<lparr>status = 200, rtype = Basic, body = u\<rparr>) None None [])) = []"
  by code_simp

lemma split_scheme_Some: "split_scheme u = Some (a, b) \<Longrightarrow> u = a @ ''://'' @ b"
proof (induction u arbitrary: a)
  case Nil
  then show ?case by simp
next
  case (Cons c cs)
  show ?case
  proof (cases "prefix ''://'' (c # cs)")
    case True
    with Cons.prems have "a = []" "b = drop 3 (c # cs)" by auto
    moreover from True obtain r where "c # cs = ''://'' @ r" by (auto simp: prefix_def)
    ultimately show ?thesis by simp
  next
    case False
    with Cons.prems obtain a' where "split_scheme cs = Some (a', b)" "a = c # a'"
      by (auto split: if_splits)
    with Cons.IH[of a'] show ?thesis by simp
  qed
qed

lemma spec_origin_prefix: "prefix (spec_origin u) u"
proof (cases "split_scheme u")
  case None
  then show ?thesis by (simp add: spec_origin_def)
next
  case (Some ab)
  obtain a b where ab: "ab = (a, b)" by (cases ab)
  from split_scheme_Some[OF Some[unfolded ab]] have u: "u = a @ ''://'' @ b" .
  have "prefix (takeWhile (\<lambda>c. c \<notin> set ''/?#'') b) b"
    by (metis prefixI takeWhile_dropWhile_id)
  then have "prefix (a @ ''://'' @ takeWhile (\<lambda>c. c \<notin> set ''/?#'') b) (a @ ''://'' @ b)"
    by (simp only: same_prefix_prefix)
  then show ?thesis using Some ab u by (simp add: spec_origin_def)
qed

text \<open>
  What the listener does: it passes a request through, without responding and without
  touching the cache storage, exactly when the URL of the request starts with neither
  the string \<^verbatim>\<open>self.location.origin\<close> nor the string \<^verbatim>\<open>https://cdn.tailwindcss.com\<close>. Every
  request whose origin is the origin of the application or of the allow-listed host is
  therefore intercepted, and every request passed through has another origin.
\<close>

lemma fetch_passthrough_by_prefix:
  "(fst (fetch_listener origin u net cs) = NotIntercepted)
     = (\<not> prefix origin u \<and> \<not> prefix ''https://cdn.tailwindcss.com'' u)
   \<and> (fst (fetch_listener origin u net cs) = NotIntercepted \<longrightarrow>
        snd (fetch_listener origin u net cs) = cs)
   \<and> (spec_origin u = origin \<or> spec_origin u = ''https://cdn.tailwindcss.com'' \<longrightarrow>
        fst (fetch_listener origin u net cs) \<noteq> NotIntercepted)"
proof -
  have 1: "(fst (fetch_listener origin u net cs) = NotIntercepted)
     = (\<not> prefix origin u \<and> \<not> prefix ''https://cdn.tailwindcss.com'' u)"
    by (simp add: fetch_listener_def split: option.splits)
  have 2: "fst (fetch_listener origin u net cs) = NotIntercepted \<longrightarrow>
        snd (fetch_listener origin u net cs) = cs"
    by (simp add: fetch_listener_def split: option.splits)
  have 3: "spec_origin u = origin \<or> spec_origin u = ''https://cdn.tailwindcss.com'' \<longrightarrow>
        fst (fetch_listener origin u net cs) \<noteq> NotIntercepted"
    unfolding 1 using spec_origin_prefix[of u] by auto
  from 1 2 3 show ?thesis by blast
qed


text \<open>
  C5. The comment in the listener says that requests to external domains, Tailwind
  excepted, are not cached, and the claim says that a request whose origin is neither
  that of the application nor that of the allow-listed host is passed through. The
  test of the listener is a prefix test on the URL. A request to the host
  \<^verbatim>\<open>cdn.tailwindcss.com.evil.example\<close> has neither origin, yet its URL starts with
  \<^verbatim>\<open>https://cdn.tailwindcss.com\<close>: the listener responds to it and stores its opaque
  response in the cache.
\<close>

theorem foreign_origin_intercepted:
  "spec_origin ''https://cdn.tailwindcss.com.evil.example/x'' = ''https://cdn.tailwindcss.com.evil.example''
   \<and> ''https://cdn.tailwindcss.com.evil.example'' \<noteq> ''https://app.example''
   \<and> ''https://cdn.tailwindcss.com.evil.example'' \<noteq> ''https://cdn.tailwindcss.com''
   \<and> fetch_listener ''https://app.example'' ''https://cdn.tailwindcss.com.evil.example/x''
        (Some \<lparr>status = 0, rtype = Opaque, body = ''x''\<rparr>) []
     = (RespondWith (Some \<lparr>status = 0, rtype = Opaque, body = ''x''\<rparr>),
        [(CACHE_NAME, [(''https://cdn.tailwindcss.com.evil.example/x'',
                        \<lparr>status = 0, rtype = Opaque, body = ''x''\<rparr>)])])"
  by code_simp

section \<open>Concrete runs\<close>

theorem bulkAdd_sync_throw_commits_witness:
  "\<lparr>familyName = ''a'', family_data = ()\<rparr>
     \<in> set (families (snd (bulkAddFamilies
          (\<lambda>x. if familyName x = ''b'' then Some DataCloneError else None)
          [\<lparr>familyName = ''a'', family_data = ()\<rparr>, \<lparr>familyName = ''b'', family_data = ()\<rparr>,
           \<lparr>familyName = ''c'', family_data = ()\<rparr>]
          (OpenSuccess 1)
          ((initial_world :: (unit, unit) world)
             \<lparr>families := [\<lparr>familyName = ''z'', family_data = ()\<rparr>]\<rparr>))))
   \<and> \<lparr>familyName = ''a'', family_data = ()\<rparr>
     \<notin> set (families ((initial_world :: (unit, unit) world)
             \<lparr>families := [\<lparr>familyName = ''z'', family_data = ()\<rparr>]\<rparr>))"
  using bulkAdd_sync_throw_commits by simp

lemma bulkAdd_request_failure_example:
  "fst (bulkAddFamilies (\<lambda>x. None)
       [\<lparr>familyName = ''a'', family_data = ()\<rparr>, \<lparr>familyName = ''b'', family_data = ()\<rparr>,
        \<lparr>familyName = ''c'', family_data = ()\<rparr>] (OpenSuccess 1)
       ((initial_world :: (unit, unit) world)
          \<lparr>families := [\<lparr>familyName = ''b'', family_data = ()\<rparr>]\<rparr>)) = Rejected ConstraintError
   \<and> families (snd (bulkAddFamilies (\<lambda>x. None)
       [\<lparr>familyName = ''a'', family_data = ()\<rparr>, \<lparr>familyName = ''b'', family_data = ()\<rparr>,
        \<lparr>familyName = ''c'', family_data = ()\<rparr>] (OpenSuccess 1)
       ((initial_world :: (unit, unit) world)
          \<lparr>families := [\<lparr>familyName = ''b'', family_data = ()\<rparr>]\<rparr>)))
     = [\<lparr>familyName = ''b'', family_data = ()\<rparr>]"
  by code_simp

theorem failed_open_memoized_witness:
  "dbPromise (snd (await_getDB OpenBlockedEvent (initial_world :: (unit, unit) world))) = Some 0
   \<and> promises (snd (await_getDB OpenBlockedEvent (initial_world :: (unit, unit) world))) 0
       = Rejected OpenBlocked
   \<and> fst (saveState \<lparr>open_ev = OpenSuccess 1, now = 100, add_fault = None\<rparr> () ''a'' None
        (snd (await_getDB OpenBlockedEvent (initial_world :: (unit, unit) world))))
       = Rejected OpenBlocked
   \<and> opens (snd (snd (saveState \<lparr>open_ev = OpenSuccess 1, now = 100, add_fault = None\<rparr> () ''a'' None
        (snd (await_getDB OpenBlockedEvent (initial_world :: (unit, unit) world)))))) = 1
   \<and> dbPromise (snd (clearDatabase (OpenSuccess 1) DeleteSuccess
        (snd (await_getDB OpenBlockedEvent (initial_world :: (unit, unit) world))))) = None"
proof -
  let ?w = "snd (await_getDB OpenBlockedEvent (initial_world :: (unit, unit) world))"
  let ?ev = "\<lparr>open_ev = OpenSuccess 1, now = 100, add_fault = None\<rparr>"
  have 1: "dbPromise ?w = Some 0" by code_simp
  have 2: "promises ?w 0 = Rejected OpenBlocked" by code_simp
  have 3: "opens ?w = 1" by code_simp
  note t = failed_open_memoized[OF 1 2, where ev="?ev" and st="()" and nm="''a''" and lim=None
      and po="OpenSuccess 1" and de=DeleteSuccess]
  from t have "saveState ?ev () ''a'' None ?w = (Rejected OpenBlocked, [], ?w)" by blast
  then have 4: "fst (saveState ?ev () ''a'' None ?w) = Rejected OpenBlocked"
    "opens (snd (snd (saveState ?ev () ''a'' None ?w))) = 1"
    using 3 by simp_all
  from t have 5: "dbPromise (snd (clearDatabase (OpenSuccess 1) DeleteSuccess ?w)) = None" by blast
  from 1 2 4 5 show ?thesis by blast
qed

theorem install_swallows_failure_witness:
  "\<not> list_all (fetch_ok (\<lambda>u. if u = ''https://app.example/db.js''
                              then Some \<lparr>status = 206, rtype = Basic, body = ''part''\<rparr>
                              else Some \<lparr>status = 200, rtype = Basic, body = ''ok''\<rparr>))
        (map (resolve_url ''https://app.example/'') urlsToCache)
   \<and> install ''https://app.example/''
        (\<lambda>u. if u = ''https://app.example/db.js''
              then Some \<lparr>status = 206, rtype = Basic, body = ''part''\<rparr>
              else Some \<lparr>status = 200, rtype = Basic, body = ''ok''\<rparr>) None None []
     = (Installed, [(CACHE_NAME, [])], [TypeError])
   \<and> list_all (fetch_ok (\<lambda>u. Some \<lparr>status = 200, rtype = Basic, body = ''ok''\<rparr>))
        (map (resolve_url ''https://app.example/'') urlsToCache)
   \<and> install ''https://app.example/'' (\<lambda>u. Some \<lparr>status = 200, rtype = Basic, body = ''ok''\<rparr>)
        None (Some (StorageError ''QuotaExceededError'')) []
     = (Installed, [(CACHE_NAME, [])], [StorageError ''QuotaExceededError''])
   \<and> install ''https://app.example/'' (\<lambda>u. Some \<lparr>status = 200, rtype = Basic, body = ''ok''\<rparr>)
        (Some (StorageError ''SecurityError'')) None []
     = (Installed, [], [StorageError ''SecurityError''])"
proof -
  let ?base = "''https://app.example/''"
  let ?net = "\<lambda>u. if u = ''https://app.example/db.js''
                              then Some \<lparr>status = 206, rtype = Basic, body = ''part''\<rparr>
                              else Some \<lparr>status = 200, rtype = Basic, body = ''ok''\<rparr>"
  let ?ok = "\<lambda>u::string. Some \<lparr>status = 200, rtype = Basic, body = ''ok''\<rparr>"
  have 1: "\<not> list_all (fetch_ok ?net) (map (resolve_url ?base) urlsToCache)" by code_simp
  have 2: "list_all (fetch_ok ?ok) (map (resolve_url ?base) urlsToCache)" by code_simp
  have c: "snd (caches_open CACHE_NAME None []) = [(CACHE_NAME, [])]"
    by (simp add: caches_open_def)
  note t = install_swallows_failure[where base="?base" and net="?net" and open_fault=None
      and store_fault=None and cs="[]"]
  from t 1 c have 3: "install ?base ?net None None [] = (Installed, [(CACHE_NAME, [])], [TypeError])"
    by (metis prod.collapse)
  note t2 = install_swallows_failure[where base="?base" and net="?ok" and open_fault=None
      and store_fault="Some (StorageError ''QuotaExceededError'')" and cs="[]"
      and e="StorageError ''QuotaExceededError''"]
  from t2 2 c have 4: "install ?base ?ok None (Some (StorageError ''QuotaExceededError'')) []
      = (Installed, [(CACHE_NAME, [])], [StorageError ''QuotaExceededError''])"
    by (metis prod.collapse)
  note t3 = install_swallows_failure[where base="?base" and net="?ok"
      and open_fault="Some (StorageError ''SecurityError'')"
      and store_fault=None and cs="[]" and e="StorageError ''SecurityError''"]
  from t3 have 5: "install ?base ?ok (Some (StorageError ''SecurityError'')) None []
      = (Installed, [], [StorageError ''SecurityError''])"
    by (metis prod.collapse)
  from 1 2 3 4 5 show ?thesis by blast
qed

lemma fetch_passthrough_example:
  "\<not> prefix ''https://app.example'' ''https://unrelated.example/x''
   \<and> \<not> prefix ''https://cdn.tailwindcss.com'' ''https://unrelated.example/x''
   \<and> fetch_listener ''https://app.example'' ''https://unrelated.example/x''
        (Some \<lparr>status = 200, rtype = Cors, body = ''x''\<rparr>) [(CACHE_NAME, [])]
       = (NotIntercepted, [(CACHE_NAME, [])])
   \<and> spec_origin ''https://app.example/index.html'' = ''https://app.example''
   \<and> fst (fetch_listener ''https://app.example'' ''https://app.example/index.html'' None
        [(CACHE_NAME, [])]) \<noteq> NotIntercepted"
proof -
  have 1: "\<not> prefix ''https://app.example'' ''https://unrelated.example/x''" by simp
  have 2: "\<not> prefix ''https://cdn.tailwindcss.com'' ''https://unrelated.example/x''" by simp
  have 3: "spec_origin ''https://app.example/index.html'' = ''https://app.example''" by code_simp
  note a = fetch_passthrough_by_prefix[where origin="''https://app.example''"
      and u="''https://unrelated.example/x''"
      and net="Some \<lparr>status = 200, rtype = Cors, body = ''x''\<rparr>" and cs="[(CACHE_NAME, [])]"]
  from a 1 2 have "fst (fetch_listener ''https://app.example'' ''https://unrelated.example/x''
        (Some \<lparr>status = 200, rtype = Cors, body = ''x''\<rparr>) [(CACHE_NAME, [])]) = NotIntercepted"
    "snd (fetch_listener ''https://app.example'' ''https://unrelated.example/x''
        (Some \<lparr>status = 200, rtype = Cors, body = ''x''\<rparr>) [(CACHE_NAME, [])]) = [(CACHE_NAME, [])]"
    by blast+
  then have 4: "fetch_listener ''https://app.example'' ''https://unrelated.example/x''
        (Some \<lparr>status = 200, rtype = Cors, body = ''x''\<rparr>) [(CACHE_NAME, [])]
       = (NotIntercepted, [(CACHE_NAME, [])])"
    by (metis prod.collapse)
  from fetch_passthrough_by_prefix[where u="''https://app.example/index.html''"
      and origin="''https://app.example''" and net=None and cs="[(CACHE_NAME, [])]"] 3
  have 5: "fst (fetch_listener ''https://app.example'' ''https://app.example/index.html'' None
        [(CACHE_NAME, [])]) \<noteq> NotIntercepted" by blast
  from 1 2 3 4 5 show ?thesis by blast
qed

theorem foreign_origin_intercepted_witness:
  "fst (fetch_listener ''https://app.example'' ''https://cdn.tailwindcss.com.evil.example/x''
          (Some \<lparr>status = 0, rtype = Opaque, body = ''x''\<rparr>) []) \<noteq> NotIntercepted
   \<and> caches_match ''https://cdn.tailwindcss.com.evil.example/x''
         (snd (fetch_listener ''https://app.example'' ''https://cdn.tailwindcss.com.evil.example/x''
                 (Some \<lparr>status = 0, rtype = Opaque, body = ''x''\<rparr>) []))
       = Some \<lparr>status = 0, rtype = Opaque, body = ''x''\<rparr>"
  using foreign_origin_intercepted by (simp add: caches_match_def)

end
